theory Spec2Isabelle
  imports Main "HOL-Library.AList" "HOL-Library.Char_ord" "HOL-Library.List_Lexorder"
begin

section \<open>Python dictionaries\<close>

text \<open>
  A Python \<open>dict\<close> keeps its keys distinct and in insertion order. It is modelled as an
  association list: \<open>d[k] = v\<close> is \<^const>\<open>AList.update\<close> (an existing key keeps its place,
  a new key goes to the end), \<open>d.pop(k, None)\<close> is \<^const>\<open>AList.delete\<close> and a lookup is
  \<^const>\<open>map_of\<close>.
\<close>

type_synonym ('k, 'v) dict = "('k \<times> 'v) list"

definition dict_update :: "('k, 'v) dict \<Rightarrow> ('k, 'v) dict \<Rightarrow> ('k, 'v) dict" where
  \<comment> \<open>\<open>d.update(other)\<close>\<close>
  "dict_update d other = fold (\<lambda>(k, v). AList.update k v) other d"

definition dict_get :: "('k, 'v) dict \<Rightarrow> 'k \<Rightarrow> 'v \<Rightarrow> 'v" where
  \<comment> \<open>\<open>d.get(k, default)\<close>\<close>
  "dict_get d k default' = (case map_of d k of None \<Rightarrow> default' | Some v \<Rightarrow> v)"

definition setdefault_update ::
  "string \<Rightarrow> (string, 'v) dict \<Rightarrow> (string, (string, 'v) dict) dict \<Rightarrow> (string, (string, 'v) dict) dict" where
  \<comment> \<open>\<open>defaults.setdefault(alias, {}).update(raw_values)\<close>: the dictionary stored under
      \<open>alias\<close>, a new empty one when there is none, is updated in place\<close>
  "setdefault_update a raw_values ds =
     AList.update a (dict_update (dict_get ds a []) raw_values) ds"

section \<open>Data model\<close>

text \<open>
  The address of the scope, \<open>Address(path, generated_name="__defaults__")\<close>: the class is
  not part of the sources, and the engine only passes the address on, to the error
  messages and to \<open>compute_value\<close>.
\<close>

record address =
  spec_path :: string
  generated_name :: "string option"

text \<open>
  A key of a directive (\<open>SetDefaultsKeyT\<close>): one alias or a tuple of aliases. The aliases
  are strings, which \<open>map(str, targets)\<close> leaves as they are.
\<close>

datatype set_defaults_key = Str string | Tuple "string list"

text \<open>
  A value found where a mapping is expected: a \<open>dict\<close>, or any other object, of which
  the error messages show the \<open>repr\<close> and the type name.
\<close>

datatype 'v py_object = Dict "(string, 'v) dict" | NotDict string string

datatype 'v set_defaults_arg =
    ArgDict "(set_defaults_key, 'v py_object) dict"
  | ArgNotDict string

datatype message =
    Expected_dictionary address string
    \<comment> \<open>Expected dictionary mapping targets to default field values for {address} but got: {type}.\<close>
  | Invalid_default_field_values address set_defaults_key string string
    \<comment> \<open>Invalid default field values in {address} for target type {target}, must be an `dict`
        but was {default!r} with type `{type}`.\<close>
  | Unrecognized_target_type string address
    \<comment> \<open>Unrecognized target type {target_alias} in {address}.\<close>
  | Unrecognized_field string string "string list"
    \<comment> \<open>Unrecognized field `{field_alias}` for target {target_type.alias}.
        Valid fields are: {', '.join(sorted(valid_field_aliases))}.\<close>
  | Text string
    \<comment> \<open>any other message, such as those of a field type's \<open>compute_value\<close>\<close>

datatype error = ValueError message | InvalidFieldException message | KeyError string

record 'v field_type =
  field_type_alias :: string
  deprecated_alias :: "string option"
  compute_value :: "'v \<Rightarrow> address \<Rightarrow> error + 'v"

text \<open>
  The attribute \<open>alias\<close> of a field type and of a target type is written
  \<open>field_type_alias\<close> and \<open>target_type_alias\<close> (\<open>alias\<close> is a reserved word here).
  The target type's two class methods are parameters: \<open>class_field_types\<close> gives the field
  types for a union membership, \<open>_get_field_aliases_to_field_types\<close> the dictionary of
  the aliases under which they may be written.
\<close>

record ('v, 'u) target_type =
  target_type_alias :: string
  class_field_types :: "'u \<Rightarrow> 'v field_type list"
  get_field_aliases_to_field_types :: "'v field_type list \<Rightarrow> (string, 'v field_type) dict"

record ('v, 'u) registered_target_types =
  aliases_to_types :: "(string, ('v, 'u) target_type) dict"

definition aliases :: "('v, 'u) registered_target_types \<Rightarrow> string list" where
  \<comment> \<open>Modelled from the spec: the registry's alias list (the class \<open>RegisteredTargetTypes\<close> is
      not part of the sources) is "every kind currently known to the registry (the full
      alias list)", the keys of \<open>aliases_to_types\<close>.\<close>
  "aliases rtt = map fst (aliases_to_types rtt)"

type_synonym 'v build_file_defaults = "(string, (string, 'v) dict) dict"

record ('v, 'u) build_file_defaults_parser_state =
  address :: address
  defaults :: "(string, (string, 'v) dict) dict"
  registered_target_types :: "('v, 'u) registered_target_types"
  union_membership :: 'u

section \<open>The parser state's operations\<close>

definition create ::
  "string \<Rightarrow> 'v build_file_defaults \<Rightarrow> ('v, 'u) registered_target_types \<Rightarrow> 'u
     \<Rightarrow> ('v, 'u) build_file_defaults_parser_state" where
  "create path parent rtt um =
     \<lparr>address = \<lparr>spec_path = path, generated_name = Some ''__defaults__''\<rparr>,
      defaults = parent,
      registered_target_types = rtt,
      union_membership = um\<rparr>"

subsection \<open>\<open>get_frozen_defaults\<close>\<close>

text \<open>
  The inner comprehension, for one \<open>(field_alias, default)\<close> item: every field type of the
  target whose alias or deprecated alias is \<open>field_alias\<close> stores the computed value under
  its alias.
\<close>

fun freeze_field ::
  "address \<Rightarrow> string \<Rightarrow> 'v \<Rightarrow> 'v field_type list \<Rightarrow> (string, 'v) dict \<Rightarrow> error + (string, 'v) dict" where
  "freeze_field addr field_alias default' [] acc = Inr acc"
| "freeze_field addr field_alias default' (ft # fts) acc =
     (if field_alias = field_type_alias ft \<or> Some field_alias = deprecated_alias ft then
        (case compute_value ft default' addr of
           Inl e \<Rightarrow> Inl e
         | Inr v \<Rightarrow> freeze_field addr field_alias default' fts (AList.update (field_type_alias ft) v acc))
      else freeze_field addr field_alias default' fts acc)"

fun freeze_fields ::
  "('v, 'u) build_file_defaults_parser_state \<Rightarrow> string \<Rightarrow> (string, 'v) dict \<Rightarrow> (string, 'v) dict
     \<Rightarrow> error + (string, 'v) dict" where
  "freeze_fields self target_alias [] acc = Inr acc"
| "freeze_fields self target_alias ((field_alias, default') # fields') acc =
     (case map_of (aliases_to_types (registered_target_types self)) target_alias of
        None \<Rightarrow> Inl (KeyError target_alias)
      | Some tt \<Rightarrow>
          (case freeze_field (address self) field_alias default'
                  (class_field_types tt (union_membership self)) acc of
             Inl e \<Rightarrow> Inl e
           | Inr acc' \<Rightarrow> freeze_fields self target_alias fields' acc'))"

fun freeze_targets ::
  "('v, 'u) build_file_defaults_parser_state \<Rightarrow> (string, (string, 'v) dict) dict
     \<Rightarrow> 'v build_file_defaults \<Rightarrow> error + 'v build_file_defaults" where
  "freeze_targets self [] acc = Inr acc"
| "freeze_targets self ((target_alias, fields') # rest) acc =
     (case freeze_fields self target_alias fields' [] of
        Inl e \<Rightarrow> Inl e
      | Inr m \<Rightarrow> freeze_targets self rest (AList.update target_alias m acc))"

definition get_frozen_defaults ::
  "('v, 'u) build_file_defaults_parser_state
     \<Rightarrow> (error + 'v build_file_defaults) \<times> ('v, 'u) build_file_defaults_parser_state" where
  \<comment> \<open>The method reads \<open>self\<close> and writes nothing: the state is returned as it came.\<close>
  "get_frozen_defaults self = (freeze_targets self (defaults self) [], self)"

definition get :: "('v, 'u) build_file_defaults_parser_state \<Rightarrow> string \<Rightarrow> (string, 'v) dict" where
  \<comment> \<open>\<open>self.defaults.get(target_alias, {})\<close>\<close>
  "get self target_alias = dict_get (defaults self) target_alias []"

subsection \<open>\<open>_process_defaults\<close>\<close>

definition valid_field_aliases :: "('v, 'u) target_type \<Rightarrow> 'u \<Rightarrow> string list" where
  \<comment> \<open>\<open>set(target_type._get_field_aliases_to_field_types(
        target_type.class_field_types(self.union_membership)).keys())\<close>, as the list of the keys\<close>
  "valid_field_aliases tt um =
     map fst (get_field_aliases_to_field_types tt (class_field_types tt um))"

text \<open>The loop over \<open>default.keys()\<close>, with \<open>raw_values\<close> the dictionary it may delete from.\<close>

fun validate_fields ::
  "bool \<Rightarrow> string \<Rightarrow> string list \<Rightarrow> string list \<Rightarrow> (string, 'v) dict \<Rightarrow> error + (string, 'v) dict" where
  "validate_fields ignore_unknown_fields tgt valid [] raw_values = Inr raw_values"
| "validate_fields ignore_unknown_fields tgt valid (field_alias # keys) raw_values =
     (if field_alias \<notin> set valid then
        (if ignore_unknown_fields then
           validate_fields ignore_unknown_fields tgt valid keys (AList.delete field_alias raw_values)
         else Inl (InvalidFieldException (Unrecognized_field field_alias tgt (sort (remdups valid)))))
      else validate_fields ignore_unknown_fields tgt valid keys raw_values)"

text \<open>The loop over the target aliases of one key of the directive.\<close>

fun process_targets ::
  "('v, 'u) build_file_defaults_parser_state \<Rightarrow> bool \<Rightarrow> (string, 'v) dict \<Rightarrow> string list
     \<Rightarrow> (string, (string, 'v) dict) dict \<Rightarrow> error + (string, (string, 'v) dict) dict" where
  "process_targets self ignore_unknown_fields default' [] ds = Inr ds"
| "process_targets self ignore_unknown_fields default' (target_alias # targets) ds =
     (case map_of (aliases_to_types (registered_target_types self)) target_alias of
        None \<Rightarrow> Inl (ValueError (Unrecognized_target_type target_alias (address self)))
      | Some target_type \<Rightarrow>
          (case validate_fields ignore_unknown_fields (target_type_alias target_type)
                  (valid_field_aliases target_type (union_membership self))
                  (map fst default') default' of
             Inl e \<Rightarrow> Inl e
           | Inr raw_values \<Rightarrow>
               process_targets self ignore_unknown_fields default' targets
                 (setdefault_update (target_type_alias target_type) raw_values ds)))"

fun key_targets :: "set_defaults_key \<Rightarrow> string list" where
  \<comment> \<open>\<open>target if isinstance(target, tuple) else (target,)\<close>\<close>
  "key_targets (Tuple targets) = targets"
| "key_targets (Str target) = [target]"

text \<open>The loop over \<open>targets_defaults.items()\<close>.\<close>

fun process_items ::
  "('v, 'u) build_file_defaults_parser_state \<Rightarrow> bool \<Rightarrow> (set_defaults_key, 'v py_object) dict
     \<Rightarrow> (string, (string, 'v) dict) dict \<Rightarrow> error + (string, (string, 'v) dict) dict" where
  "process_items self ignore_unknown_fields [] ds = Inr ds"
| "process_items self ignore_unknown_fields ((target, default') # items) ds =
     (case default' of
        NotDict r ty \<Rightarrow> Inl (ValueError (Invalid_default_field_values (address self) target r ty))
      | Dict fields' \<Rightarrow>
          (case process_targets self ignore_unknown_fields fields' (key_targets target) ds of
             Inl e \<Rightarrow> Inl e
           | Inr ds' \<Rightarrow> process_items self ignore_unknown_fields items ds'))"

fun process_defaults ::
  "('v, 'u) build_file_defaults_parser_state \<Rightarrow> (string, (string, 'v) dict) dict
     \<Rightarrow> 'v set_defaults_arg \<Rightarrow> bool \<Rightarrow> error + (string, (string, 'v) dict) dict" where
  "process_defaults self ds (ArgNotDict ty) ignore_unknown_fields =
     Inl (ValueError (Expected_dictionary (address self) ty))"
| "process_defaults self ds (ArgDict targets_defaults) ignore_unknown_fields =
     process_items self ignore_unknown_fields targets_defaults ds"

subsection \<open>\<open>set_defaults\<close>\<close>

text \<open>The loop \<open>for arg in args\<close>.\<close>

fun process_args ::
  "('v, 'u) build_file_defaults_parser_state \<Rightarrow> 'v set_defaults_arg list
     \<Rightarrow> (string, (string, 'v) dict) dict \<Rightarrow> error + (string, (string, 'v) dict) dict" where
  "process_args self [] ds = Inr ds"
| "process_args self (arg # args) ds =
     (case process_defaults self ds arg False of
        Inl e \<Rightarrow> Inl e
      | Inr ds' \<Rightarrow> process_args self args ds')"

definition process_all ::
  "('v, 'u) build_file_defaults_parser_state \<Rightarrow> 'v py_object option
     \<Rightarrow> (string, (string, 'v) dict) dict \<Rightarrow> error + (string, (string, 'v) dict) dict" where
  \<comment> \<open>\<open>if all is not None: self._process_defaults(defaults, {tuple(aliases): all}, True)\<close>\<close>
  "process_all self all ds =
     (case all of
        None \<Rightarrow> Inr ds
      | Some a \<Rightarrow>
          process_defaults self ds
            (ArgDict [(Tuple (aliases (registered_target_types self)), a)]) True)"

text \<open>The last loop: a target without any default value is dropped, any other is stored.\<close>

definition store_default ::
  "string \<times> (string, 'v) dict \<Rightarrow> (string, (string, 'v) dict) dict \<Rightarrow> (string, (string, 'v) dict) dict" where
  "store_default = (\<lambda>(tgt, default') ds.
     if default' = [] then AList.delete tgt ds else AList.update tgt default' ds)"

text \<open>
  The method returns nothing; the model returns the exception raised, if any, and the
  state in which the call leaves \<open>self\<close>. The directives work on the local dictionary
  \<open>defaults\<close> (\<open>ds0\<close>, \<open>ds1\<close>, \<open>ds2\<close> below), which starts empty or, with \<open>extend\<close>, as
  \<open>{k: dict(v) for k, v in self.defaults.items()}\<close>; \<open>self.defaults\<close> is written in the last
  loop only. The keyword arguments \<open>kwargs\<close> are not used.
\<close>

definition set_defaults ::
  "('v, 'u) build_file_defaults_parser_state \<Rightarrow> 'v set_defaults_arg list \<Rightarrow> 'v py_object option
     \<Rightarrow> bool \<Rightarrow> (string, 'v) dict
     \<Rightarrow> error option \<times> ('v, 'u) build_file_defaults_parser_state" where
  "set_defaults self args all extend' kwargs =
     (let ds0 = (if \<not> extend' then [] else map (\<lambda>(k, v). (k, v)) (defaults self)) in
      case process_all self all ds0 of
        Inl e \<Rightarrow> (Some e, self)
      | Inr ds1 \<Rightarrow>
          (case process_args self args ds1 of
             Inl e \<Rightarrow> (Some e, self)
           | Inr ds2 \<Rightarrow> (None, self\<lparr>defaults := fold store_default ds2 (defaults self)\<rparr>)))"

section \<open>Dictionaries as objects\<close>

text \<open>
  The operations above take a dictionary for its contents. In the program the field
  mappings are objects: \<open>self.defaults\<close> and the local dictionary \<open>defaults\<close> of
  \<open>set_defaults\<close> hold references to them, and \<open>update\<close> changes one in place. This
  section models them so: a store is the list of the field mappings allocated so far, a
  reference is an index into it, a new object is appended.

  With \<open>extend\<close> the local dictionary starts from a copy \<open>dict(v)\<close> of every field mapping of
  \<open>self.defaults\<close>; \<open>setdefault\<close> makes a new empty mapping for a kind that has none;
  \<open>update\<close> writes to the mapping the local dictionary refers to. The functions return the
  exception raised, if any, and the store and the dictionary as the call leaves them, also
  when it raises.
\<close>

type_synonym ref = nat

type_synonym 'v store = "(string, 'v) dict list"

record ('v, 'u) parser_object =
  obj_address :: address
  obj_defaults :: "(string, ref) dict"
  obj_registered_target_types :: "('v, 'u) registered_target_types"
  obj_union_membership :: 'u

text \<open>
  \<open>create\<close>: the field mappings of the parent table are objects of the store, and
  \<open>dict(defaults)\<close> is a new dictionary that refers to them.
\<close>

definition create_obj ::
  "string \<Rightarrow> 'v build_file_defaults \<Rightarrow> ('v, 'u) registered_target_types \<Rightarrow> 'u \<Rightarrow> 'v store
     \<Rightarrow> 'v store \<times> ('v, 'u) parser_object" where
  "create_obj path parent rtt um h =
     (h @ map snd parent,
      \<lparr>obj_address = \<lparr>spec_path = path, generated_name = Some ''__defaults__''\<rparr>,
       obj_defaults = zip (map fst parent) [length h ..< length h + length parent],
       obj_registered_target_types = rtt,
       obj_union_membership = um\<rparr>)"

text \<open>\<open>{k: dict(v) for k, v in self.defaults.items()}\<close>: a new object for every copy.\<close>

fun copy_defaults :: "(string, ref) dict \<Rightarrow> 'v store \<Rightarrow> 'v store \<times> (string, ref) dict" where
  "copy_defaults [] h = (h, [])"
| "copy_defaults ((k, r) # items) h =
     (case copy_defaults items (h @ [h ! r]) of (h', ds) \<Rightarrow> (h', (k, length h) # ds))"

text \<open>
  \<open>defaults.setdefault(alias, {}).update(raw_values)\<close>: the object the local dictionary
  has for \<open>alias\<close> is written in place; when it has none, a new empty one is stored first.
\<close>

fun setdefault_update_obj ::
  "string \<Rightarrow> (string, 'v) dict \<Rightarrow> 'v store \<times> (string, ref) dict \<Rightarrow> 'v store \<times> (string, ref) dict" where
  "setdefault_update_obj a raw_values (h, ds) =
     (case map_of ds a of
        Some r \<Rightarrow> (h[r := dict_update (h ! r) raw_values], ds)
      | None \<Rightarrow> (h @ [dict_update [] raw_values], AList.update a (length h) ds))"

text \<open>The loops of \<open>_process_defaults\<close> and of \<open>set_defaults\<close>, as above.\<close>

fun process_targets_obj ::
  "('v, 'u) parser_object \<Rightarrow> bool \<Rightarrow> (string, 'v) dict \<Rightarrow> string list
     \<Rightarrow> 'v store \<times> (string, ref) dict \<Rightarrow> error option \<times> 'v store \<times> (string, ref) dict" where
  "process_targets_obj self ignore_unknown_fields default' [] s = (None, s)"
| "process_targets_obj self ignore_unknown_fields default' (target_alias # targets) s =
     (case map_of (aliases_to_types (obj_registered_target_types self)) target_alias of
        None \<Rightarrow> (Some (ValueError (Unrecognized_target_type target_alias (obj_address self))), s)
      | Some target_type \<Rightarrow>
          (case validate_fields ignore_unknown_fields (target_type_alias target_type)
                  (valid_field_aliases target_type (obj_union_membership self))
                  (map fst default') default' of
             Inl e \<Rightarrow> (Some e, s)
           | Inr raw_values \<Rightarrow>
               process_targets_obj self ignore_unknown_fields default' targets
                 (setdefault_update_obj (target_type_alias target_type) raw_values s)))"

fun process_items_obj ::
  "('v, 'u) parser_object \<Rightarrow> bool \<Rightarrow> (set_defaults_key, 'v py_object) dict
     \<Rightarrow> 'v store \<times> (string, ref) dict \<Rightarrow> error option \<times> 'v store \<times> (string, ref) dict" where
  "process_items_obj self ignore_unknown_fields [] s = (None, s)"
| "process_items_obj self ignore_unknown_fields ((target, default') # items) s =
     (case default' of
        NotDict r ty \<Rightarrow> (Some (ValueError (Invalid_default_field_values (obj_address self) target r ty)), s)
      | Dict fields' \<Rightarrow>
          (case process_targets_obj self ignore_unknown_fields fields' (key_targets target) s of
             (Some e, s') \<Rightarrow> (Some e, s')
           | (None, s') \<Rightarrow> process_items_obj self ignore_unknown_fields items s'))"

fun process_defaults_obj ::
  "('v, 'u) parser_object \<Rightarrow> 'v store \<times> (string, ref) dict \<Rightarrow> 'v set_defaults_arg \<Rightarrow> bool
     \<Rightarrow> error option \<times> 'v store \<times> (string, ref) dict" where
  "process_defaults_obj self s (ArgNotDict ty) ignore_unknown_fields =
     (Some (ValueError (Expected_dictionary (obj_address self) ty)), s)"
| "process_defaults_obj self s (ArgDict targets_defaults) ignore_unknown_fields =
     process_items_obj self ignore_unknown_fields targets_defaults s"

fun process_args_obj ::
  "('v, 'u) parser_object \<Rightarrow> 'v set_defaults_arg list
     \<Rightarrow> 'v store \<times> (string, ref) dict \<Rightarrow> error option \<times> 'v store \<times> (string, ref) dict" where
  "process_args_obj self [] s = (None, s)"
| "process_args_obj self (arg # args) s =
     (case process_defaults_obj self s arg False of
        (Some e, s') \<Rightarrow> (Some e, s')
      | (None, s') \<Rightarrow> process_args_obj self args s')"

definition process_all_obj ::
  "('v, 'u) parser_object \<Rightarrow> 'v py_object option
     \<Rightarrow> 'v store \<times> (string, ref) dict \<Rightarrow> error option \<times> 'v store \<times> (string, ref) dict" where
  "process_all_obj self all s =
     (case all of
        None \<Rightarrow> (None, s)
      | Some a \<Rightarrow>
          process_defaults_obj self s
            (ArgDict [(Tuple (aliases (obj_registered_target_types self)), a)]) True)"

text \<open>The last loop stores the reference of a field mapping that is not empty.\<close>

definition store_default_obj ::
  "'v store \<Rightarrow> string \<times> ref \<Rightarrow> (string, ref) dict \<Rightarrow> (string, ref) dict" where
  "store_default_obj h = (\<lambda>(tgt, r) ds.
     if h ! r = [] then AList.delete tgt ds else AList.update tgt r ds)"

definition set_defaults_obj ::
  "'v store \<times> ('v, 'u) parser_object \<Rightarrow> 'v set_defaults_arg list \<Rightarrow> 'v py_object option
     \<Rightarrow> bool \<Rightarrow> (string, 'v) dict
     \<Rightarrow> error option \<times> 'v store \<times> ('v, 'u) parser_object" where
  "set_defaults_obj = (\<lambda>(h, self) args all extend' kwargs.
     let s0 = (if \<not> extend' then (h, []) else copy_defaults (obj_defaults self) h) in
     case process_all_obj self all s0 of
       (Some e, (h1, ds1)) \<Rightarrow> (Some e, (h1, self))
     | (None, s1) \<Rightarrow>
         (case process_args_obj self args s1 of
            (Some e, (h2, ds2)) \<Rightarrow> (Some e, (h2, self))
          | (None, (h2, ds2)) \<Rightarrow>
              (None, (h2, self\<lparr>obj_defaults := fold (store_default_obj h2) ds2 (obj_defaults self)\<rparr>))))"

text \<open>
  What an object-level state stands for: every reference replaced by the field mapping
  it refers to. A state is allocated when the references of \<open>self.defaults\<close> are in the
  store. While a call runs, the references of its local dictionary are distinct objects
  allocated since the call began (\<open>base\<close> is the size of the store at that moment).
\<close>

definition deref :: "'v store \<Rightarrow> (string, ref) dict \<Rightarrow> (string, (string, 'v) dict) dict" where
  "deref h ds = map (\<lambda>(k, r). (k, h ! r)) ds"

definition values_of ::
  "'v store \<times> ('v, 'u) parser_object \<Rightarrow> ('v, 'u) build_file_defaults_parser_state" where
  "values_of = (\<lambda>(h, self).
     \<lparr>address = obj_address self,
      defaults = deref h (obj_defaults self),
      registered_target_types = obj_registered_target_types self,
      union_membership = obj_union_membership self\<rparr>)"

definition allocated :: "'v store \<times> ('v, 'u) parser_object \<Rightarrow> bool" where
  "allocated = (\<lambda>(h, self). \<forall>r \<in> snd ` set (obj_defaults self). r < length h)"

definition scratch_inv :: "nat \<Rightarrow> 'v store \<Rightarrow> (string, ref) dict \<Rightarrow> bool" where
  "scratch_inv base h ds \<longleftrightarrow>
     base \<le> length h \<and> (\<forall>r \<in> snd ` set ds. base \<le> r \<and> r < length h) \<and> distinct (map snd ds)"

definition outcome ::
  "error option \<times> 'v store \<times> (string, ref) dict \<Rightarrow> error + (string, (string, 'v) dict) dict" where
  "outcome = (\<lambda>(res, h, ds). case res of None \<Rightarrow> Inr (deref h ds) | Some e \<Rightarrow> Inl e)"

definition kept :: "nat \<Rightarrow> 'v store \<Rightarrow> error option \<times> 'v store \<times> (string, ref) dict \<Rightarrow> bool" where
  "kept base h = (\<lambda>(res, h', ds'). scratch_inv base h' ds' \<and> (\<forall>r < base. h' ! r = h ! r))"

section \<open>The directives of a call, kind by kind\<close>

text \<open>
  The spec describes a call by what it gives to each kind: the \<open>all\<close> mapping is expanded
  into one directive per kind known to the registry, with the fields the kind does not
  have dropped; then come the explicit directives, in the caller's order; for each kind
  the field mappings are merged in this order, a later value replacing an earlier one.
  The definitions below follow these words: they list the pairs (kind, field mapping) of
  a call and merge the mappings of one kind. They are compared with \<open>set_defaults\<close> in
  the theorems.
\<close>

fun targets_given ::
  "('v, 'u) registered_target_types \<Rightarrow> 'u \<Rightarrow> bool \<Rightarrow> (string, 'v) dict \<Rightarrow> string list
     \<Rightarrow> (string \<times> (string, 'v) dict) list" where
  "targets_given rtt um drop_unknown m [] = []"
| "targets_given rtt um drop_unknown m (k # ks) =
     (case map_of (aliases_to_types rtt) k of
        None \<Rightarrow> targets_given rtt um drop_unknown m ks
      | Some tt \<Rightarrow>
          (target_type_alias tt,
           if drop_unknown then filter (\<lambda>p. fst p \<in> set (valid_field_aliases tt um)) m else m)
          # targets_given rtt um drop_unknown m ks)"

fun items_given ::
  "('v, 'u) registered_target_types \<Rightarrow> 'u \<Rightarrow> (set_defaults_key, 'v py_object) dict
     \<Rightarrow> (string \<times> (string, 'v) dict) list" where
  "items_given rtt um [] = []"
| "items_given rtt um ((key, Dict m) # items) =
     targets_given rtt um False m (key_targets key) @ items_given rtt um items"
| "items_given rtt um ((key, NotDict r ty) # items) = items_given rtt um items"

fun arg_given ::
  "('v, 'u) registered_target_types \<Rightarrow> 'u \<Rightarrow> 'v set_defaults_arg
     \<Rightarrow> (string \<times> (string, 'v) dict) list" where
  "arg_given rtt um (ArgDict items) = items_given rtt um items"
| "arg_given rtt um (ArgNotDict ty) = []"

fun all_given ::
  "('v, 'u) registered_target_types \<Rightarrow> 'u \<Rightarrow> 'v py_object option
     \<Rightarrow> (string \<times> (string, 'v) dict) list" where
  "all_given rtt um (Some (Dict m)) = targets_given rtt um True m (aliases rtt)"
| "all_given rtt um _ = []"

definition explicit_given ::
  "('v, 'u) registered_target_types \<Rightarrow> 'u \<Rightarrow> 'v set_defaults_arg list
     \<Rightarrow> (string \<times> (string, 'v) dict) list" where
  "explicit_given rtt um args = concat (map (arg_given rtt um) args)"

definition call_given ::
  "('v, 'u) registered_target_types \<Rightarrow> 'u \<Rightarrow> 'v py_object option \<Rightarrow> 'v set_defaults_arg list
     \<Rightarrow> (string \<times> (string, 'v) dict) list" where
  "call_given rtt um all args = all_given rtt um all @ explicit_given rtt um args"

definition named_kinds :: "(string \<times> (string, 'v) dict) list \<Rightarrow> string set" where
  "named_kinds given = fst ` set given"

definition merged_fields ::
  "(string \<times> (string, 'v) dict) list \<Rightarrow> string \<Rightarrow> (string, 'v) dict \<Rightarrow> (string, 'v) dict" where
  \<comment> \<open>the mappings given to kind \<open>k\<close>, merged in order into the mapping \<open>m0\<close>\<close>
  "merged_fields given k m0 =
     fold (\<lambda>m acc. dict_update acc m) (map snd (filter (\<lambda>p. fst p = k) given)) m0"

text \<open>Merging the pairs of a call into a dictionary, one after the other.\<close>

abbreviation merge_given ::
  "(string \<times> (string, 'v) dict) list \<Rightarrow> (string, (string, 'v) dict) dict \<Rightarrow> (string, (string, 'v) dict) dict" where
  "merge_given given ds \<equiv> fold (\<lambda>(a, rv). setdefault_update a rv) given ds"

text \<open>
  The test of the inner comprehension of \<open>get_frozen_defaults\<close>,
  \<open>field_alias in (field_type.alias, field_type.deprecated_alias)\<close>, under a name.
\<close>

definition matches :: "string \<Rightarrow> 'v field_type \<Rightarrow> bool" where
  "matches field_alias ft \<longleftrightarrow>
     field_alias = field_type_alias ft \<or> Some field_alias = deprecated_alias ft"

section \<open>An example registry\<close>

text \<open>
  The registry of \<open>defaults_test.py\<close>: three target types, \<open>target\<close>, \<open>test_type_1\<close> and
  \<open>test_type_2\<close>, each with the fields \<open>tags\<close>, \<open>description\<close> and \<open>dependencies\<close>. The tests
  show what the field types compute: a list or tuple of strings becomes a tuple, a string
  stays a string, and a string given for \<open>tags\<close> is an invalid field value. The example is
  used at concrete inputs only.
\<close>

datatype py_value = PyStr string | PyList "py_value list" | PyTuple "py_value list"

fun is_str :: "py_value \<Rightarrow> bool" where
  "is_str (PyStr s) = True"
| "is_str (PyList xs) = False"
| "is_str (PyTuple xs) = False"

fun string_sequence :: "string \<Rightarrow> py_value \<Rightarrow> address \<Rightarrow> error + py_value" where
  "string_sequence name (PyStr s) addr = Inl (InvalidFieldException (Text name))"
| "string_sequence name (PyList xs) addr =
     (if list_all is_str xs then Inr (PyTuple xs) else Inl (InvalidFieldException (Text name)))"
| "string_sequence name (PyTuple xs) addr =
     (if list_all is_str xs then Inr (PyTuple xs) else Inl (InvalidFieldException (Text name)))"

fun string_value :: "string \<Rightarrow> py_value \<Rightarrow> address \<Rightarrow> error + py_value" where
  "string_value name (PyStr s) addr = Inr (PyStr s)"
| "string_value name (PyList xs) addr = Inl (InvalidFieldException (Text name))"
| "string_value name (PyTuple xs) addr = Inl (InvalidFieldException (Text name))"

definition Tags :: "py_value field_type" where
  "Tags = \<lparr>field_type_alias = ''tags'', deprecated_alias = None,
            compute_value = string_sequence ''tags''\<rparr>"

definition Description :: "py_value field_type" where
  "Description = \<lparr>field_type_alias = ''description'', deprecated_alias = None,
                   compute_value = string_value ''description''\<rparr>"

definition Dependencies :: "py_value field_type" where
  "Dependencies = \<lparr>field_type_alias = ''dependencies'', deprecated_alias = None,
                    compute_value = string_sequence ''dependencies''\<rparr>"

definition aliases_and_deprecated :: "'v field_type list \<Rightarrow> (string, 'v field_type) dict" where
  \<comment> \<open>every field type under its alias and, when it has one, under its deprecated alias\<close>
  "aliases_and_deprecated fts =
     fold (\<lambda>ft d. case deprecated_alias ft of
                     None \<Rightarrow> AList.update (field_type_alias ft) ft d
                   | Some old \<Rightarrow> AList.update old ft (AList.update (field_type_alias ft) ft d))
          fts []"

definition GenericTarget :: "string \<Rightarrow> (py_value, unit) target_type" where
  "GenericTarget a =
     \<lparr>target_type_alias = a,
      class_field_types = (\<lambda>um. [Tags, Description, Dependencies]),
      get_field_aliases_to_field_types = aliases_and_deprecated\<rparr>"

definition test_types :: "(py_value, unit) registered_target_types" where
  "test_types =
     \<lparr>aliases_to_types =
        [(''target'', GenericTarget ''target''),
         (''test_type_1'', GenericTarget ''test_type_1''),
         (''test_type_2'', GenericTarget ''test_type_2'')]\<rparr>"

text \<open>
  A registry with one target type that has a renamed field: the field type's alias is
  \<open>new_name\<close>, its deprecated alias \<open>old_name\<close>.
\<close>

definition Renamed :: "py_value field_type" where
  "Renamed = \<lparr>field_type_alias = ''new_name'', deprecated_alias = Some ''old_name'',
               compute_value = string_value ''new_name''\<rparr>"

definition RenamedTarget :: "(py_value, unit) target_type" where
  "RenamedTarget =
     \<lparr>target_type_alias = ''renamed'',
      class_field_types = (\<lambda>um. [Tags, Renamed]),
      get_field_aliases_to_field_types = aliases_and_deprecated\<rparr>"

definition renamed_types :: "(py_value, unit) registered_target_types" where
  "renamed_types = \<lparr>aliases_to_types = [(''renamed'', RenamedTarget)]\<rparr>"

section \<open>Dictionaries: lookups after the updates\<close>

lemma in_keys_iff: "f \<in> fst ` set xs \<longleftrightarrow> map_of xs f \<noteq> None"
  by (simp add: map_of_eq_None_iff)

lemma map_of_rev_distinct: "distinct (map fst xs) \<Longrightarrow> map_of (rev xs) = map_of xs"
  by (metis distinct_rev rev_map map_of_inject_set set_rev)

lemma update_new_key: "k \<notin> fst ` set d \<Longrightarrow> AList.update k v d = d @ [(k, v)]"
  by (induction d) auto

lemma fold_update_distinct:
  "distinct (map fst (d @ m)) \<Longrightarrow> fold (\<lambda>(k, v). AList.update k v) m d = d @ m"
proof (induction m arbitrary: d)
  case Nil
  then show ?case by simp
next
  case (Cons p m)
  obtain k v where p: "p = (k, v)" by (cases p)
  from Cons.prems p have new: "k \<notin> fst ` set d" by auto
  from Cons.prems p have "distinct (map fst ((d @ [(k, v)]) @ m))" by auto
  from Cons.IH [OF this] show ?case
    by (simp add: p update_new_key [OF new])
qed

lemma dict_update_empty: "distinct (map fst m) \<Longrightarrow> dict_update [] m = m"
  using fold_update_distinct [of "[]" m] by (simp add: dict_update_def)

lemma map_of_dict_update: "map_of (dict_update d other) = map_of d ++ map_of (rev other)"
proof -
  have "map_of (fold (\<lambda>(k, v). AList.update k v) other d) = map_of d ++ map_of (rev other)"
  proof (induction other arbitrary: d)
    case Nil
    then show ?case by simp
  next
    case (Cons p other)
    obtain k v where p: "p = (k, v)" by (cases p)
    show ?case
      by (simp add: p Cons.IH update_conv' fun_eq_iff map_add_def split: option.splits)
  qed
  then show ?thesis by (simp add: dict_update_def)
qed

lemma map_of_setdefault_update:
  "map_of (setdefault_update a rv ds) = (map_of ds)(a \<mapsto> dict_update (dict_get ds a []) rv)"
  by (simp add: setdefault_update_def update_conv')

lemma dict_get_setdefault_update:
  "dict_get (setdefault_update a rv ds) k [] =
     (if k = a then dict_update (dict_get ds a []) rv else dict_get ds k [])"
  by (simp add: dict_get_def map_of_setdefault_update)

lemma keys_setdefault_update:
  "fst ` set (setdefault_update a rv ds) = insert a (fst ` set ds)"
  by (simp add: setdefault_update_def dom_update)

lemma distinct_setdefault_update:
  "distinct (map fst ds) \<Longrightarrow> distinct (map fst (setdefault_update a rv ds))"
  by (simp add: setdefault_update_def distinct_update)

lemma store_default_pair:
  "store_default (a, m) ds = (if m = [] then AList.delete a ds else AList.update a m ds)"
  by (simp add: store_default_def)

lemma map_of_fold_store_default:
  "map_of (fold store_default ds2 ds) k =
     (case map_of (rev ds2) k of None \<Rightarrow> map_of ds k | Some m \<Rightarrow> if m = [] then None else Some m)"
proof (induction ds2 arbitrary: ds)
  case Nil
  then show ?case by simp
next
  case (Cons p ds2)
  obtain a m where p: "p = (a, m)" by (cases p)
  show ?case
    by (simp add: Cons.IH p store_default_pair update_conv' delete_conv' map_add_def
          split: option.splits)
qed

lemma dict_get_fold_store_default:
  assumes "distinct (map fst ds2)"
  shows "dict_get (fold store_default ds2 ds) k [] =
           (if k \<in> fst ` set ds2 then dict_get ds2 k [] else dict_get ds k [])"
proof -
  have "map_of (rev ds2) k = map_of ds2 k"
    using assms by (simp add: map_of_rev_distinct)
  moreover have "k \<in> fst ` set ds2 \<longleftrightarrow> map_of ds2 k \<noteq> None"
    by (simp add: map_of_eq_None_iff)
  ultimately show ?thesis
    by (auto simp: dict_get_def map_of_fold_store_default split: option.splits)
qed

lemma map_of_rev_filter:
  assumes "distinct (map fst a)"
  shows "map_of (rev (filter (\<lambda>p. fst p \<in> V) a)) f = (if f \<in> V then map_of a f else None)"
proof -
  have "distinct (map fst (filter (\<lambda>p. fst p \<in> V) a))"
    using assms by (simp add: distinct_map_filter)
  then have "map_of (rev (filter (\<lambda>p. fst p \<in> V) a)) f = map_of (filter (\<lambda>p. fst p \<in> V) a) f"
    by (simp add: map_of_rev_distinct)
  also have "\<dots> = (if f \<in> V then map_of a f else None)"
    by (induction a) auto
  finally show ?thesis .
qed

section \<open>Merging the pairs of a call\<close>

lemma merged_fields_Nil [simp]: "merged_fields [] k m0 = m0"
  by (simp add: merged_fields_def)

lemma merged_fields_Cons:
  "merged_fields ((a, rv) # given) k m0 =
     (if a = k then merged_fields given k (dict_update m0 rv) else merged_fields given k m0)"
  by (simp add: merged_fields_def)

lemma merged_fields_append:
  "merged_fields (g1 @ g2) k m0 = merged_fields g2 k (merged_fields g1 k m0)"
  by (simp add: merged_fields_def)

lemma merged_fields_not_named: "k \<notin> named_kinds given \<Longrightarrow> merged_fields given k m0 = m0"
  by (induction given arbitrary: m0) (auto simp: merged_fields_Cons named_kinds_def)

lemma merged_fields_single: "distinct (map fst m) \<Longrightarrow> merged_fields [(k, m)] k [] = m"
  by (simp add: merged_fields_def dict_update_empty)

lemma named_kinds_append [simp]: "named_kinds (g1 @ g2) = named_kinds g1 \<union> named_kinds g2"
  by (auto simp: named_kinds_def)

lemma keys_merge_given:
  "fst ` set (merge_given given ds) = named_kinds given \<union> fst ` set ds"
proof (induction given arbitrary: ds)
  case Nil
  then show ?case by (simp add: named_kinds_def)
next
  case (Cons p given)
  obtain a rv where p: "p = (a, rv)" by (cases p)
  have "fst ` set (merge_given (p # given) ds)
          = named_kinds given \<union> insert a (fst ` set ds)"
    by (simp add: p Cons.IH keys_setdefault_update)
  then show ?case
    by (simp add: p named_kinds_def)
qed

lemma distinct_merge_given:
  "distinct (map fst ds) \<Longrightarrow> distinct (map fst (merge_given given ds))"
  by (induction given arbitrary: ds) (auto simp: distinct_setdefault_update)

lemma dict_get_merge_given:
  "dict_get (merge_given given ds) k [] = merged_fields given k (dict_get ds k [])"
proof (induction given arbitrary: ds)
  case Nil
  then show ?case by simp
next
  case (Cons p given)
  obtain a rv where p: "p = (a, rv)" by (cases p)
  show ?case
    by (simp add: p Cons.IH merged_fields_Cons dict_get_setdefault_update)
qed

lemma map_of_merge_given:
  "map_of (merge_given given ds) k =
     (if k \<in> named_kinds given \<union> fst ` set ds then Some (merged_fields given k (dict_get ds k []))
      else None)"
proof (cases "map_of (merge_given given ds) k")
  case None
  then have "k \<notin> fst ` set (merge_given given ds)"
    by (simp add: map_of_eq_None_iff)
  with None show ?thesis by (simp add: keys_merge_given)
next
  case (Some m)
  then have "k \<in> fst ` set (merge_given given ds)"
    by (metis map_of_eq_None_iff option.distinct(1))
  moreover from Some have "dict_get (merge_given given ds) k [] = m"
    by (simp add: dict_get_def)
  ultimately show ?thesis
    using Some by (simp add: keys_merge_given dict_get_merge_given)
qed

lemma map_of_merged_fields:
  "map_of (merged_fields given k m0) = map_of m0 ++ map_of (merged_fields given k [])"
proof (induction given arbitrary: m0)
  case Nil
  then show ?case by simp
next
  case (Cons p given)
  obtain a rv where p: "p = (a, rv)" by (cases p)
  show ?case
  proof (cases "a = k")
    case True
    have "map_of (merged_fields (p # given) k m0)
            = (map_of m0 ++ map_of (rev rv)) ++ map_of (merged_fields given k [])"
      using Cons.IH [of "dict_update m0 rv"] by (simp add: p True merged_fields_Cons map_of_dict_update)
    moreover have "map_of (merged_fields (p # given) k [])
            = map_of (rev rv) ++ map_of (merged_fields given k [])"
      using Cons.IH [of "dict_update [] rv"] by (simp add: p True merged_fields_Cons map_of_dict_update)
    ultimately show ?thesis by simp
  next
    case False
    with Cons.IH [of m0] show ?thesis by (simp add: p merged_fields_Cons)
  qed
qed

lemma merged_fields_keeps:
  "(\<And>rv. (k, rv) \<in> set g \<Longrightarrow> map_of (rev rv) f = None \<or> map_of (rev rv) f = Some x) \<Longrightarrow>
   map_of m0 f = Some x \<Longrightarrow> map_of (merged_fields g k m0) f = Some x"
proof (induction g arbitrary: m0)
  case Nil
  then show ?case by simp
next
  case (Cons p g)
  obtain a rv where p: "p = (a, rv)" by (cases p)
  have rest: "\<And>rv. (k, rv) \<in> set g \<Longrightarrow> map_of (rev rv) f = None \<or> map_of (rev rv) f = Some x"
    using Cons.prems(1) by simp
  show ?case
  proof (cases "a = k")
    case True
    from Cons.prems(1) [of rv] True p
    have "map_of (rev rv) f = None \<or> map_of (rev rv) f = Some x" by simp
    with Cons.prems(2) have "map_of (dict_update m0 rv) f = Some x"
      by (auto simp: map_of_dict_update map_add_def)
    from Cons.IH [OF rest this] True show ?thesis
      by (simp add: p merged_fields_Cons)
  next
    case False
    from Cons.IH [OF rest Cons.prems(2)] False show ?thesis
      by (simp add: p merged_fields_Cons)
  qed
qed

lemma merged_fields_records:
  "(\<And>rv. (k, rv) \<in> set g \<Longrightarrow> map_of (rev rv) f = None \<or> map_of (rev rv) f = Some x) \<Longrightarrow>
   (k, rv0) \<in> set g \<Longrightarrow> map_of (rev rv0) f = Some x \<Longrightarrow>
   map_of (merged_fields g k m0) f = Some x"
proof (induction g arbitrary: m0)
  case Nil
  then show ?case by simp
next
  case (Cons p g)
  obtain a rv where p: "p = (a, rv)" by (cases p)
  have rest: "\<And>rv. (k, rv) \<in> set g \<Longrightarrow> map_of (rev rv) f = None \<or> map_of (rev rv) f = Some x"
    using Cons.prems(1) by simp
  show ?case
  proof (cases "p = (k, rv0)")
    case True
    with Cons.prems(3) p have "map_of (dict_update m0 rv) f = Some x"
      by (simp add: map_of_dict_update map_add_def)
    from merged_fields_keeps [OF rest this] True p show ?thesis
      by (simp add: merged_fields_Cons)
  next
    case False
    with Cons.prems(2) have mem: "(k, rv0) \<in> set g" by simp
    from Cons.IH [OF rest mem Cons.prems(3)] show ?thesis
      by (simp add: p merged_fields_Cons)
  qed
qed

section \<open>A call that succeeds merges the pairs it gives\<close>

lemma validate_fields_drop:
  "validate_fields True tgt valid keys rv
     = Inr (filter (\<lambda>p. fst p \<in> set keys \<longrightarrow> fst p \<in> set valid) rv)"
proof (induction keys arbitrary: rv)
  case Nil
  then show ?case by simp
next
  case (Cons k keys)
  show ?case
  proof (cases "k \<in> set valid")
    case True
    then have "(\<lambda>p. fst p \<in> set (k # keys) \<longrightarrow> fst p \<in> set valid)
                 = (\<lambda>p::string \<times> 'a. fst p \<in> set keys \<longrightarrow> fst p \<in> set valid)"
      by auto
    with True Cons.IH show ?thesis by simp
  next
    case False
    then have "filter (\<lambda>p. fst p \<in> set keys \<longrightarrow> fst p \<in> set valid) (AList.delete k rv)
                 = filter (\<lambda>p. fst p \<in> set (k # keys) \<longrightarrow> fst p \<in> set valid) rv"
      by (auto simp: AList.delete_eq intro: filter_cong)
    with False Cons.IH show ?thesis by simp
  qed
qed

lemma validate_fields_all_keys:
  "validate_fields True tgt valid (map fst m) m = Inr (filter (\<lambda>p. fst p \<in> set valid) m)"
proof -
  have "filter (\<lambda>p. fst p \<in> set (map fst m) \<longrightarrow> fst p \<in> set valid) m
          = filter (\<lambda>p. fst p \<in> set valid) m"
    by (rule filter_cong) auto
  then show ?thesis by (simp add: validate_fields_drop)
qed

lemma validate_fields_strict:
  "validate_fields False tgt valid keys rv = Inr rv' \<Longrightarrow> rv' = rv \<and> set keys \<subseteq> set valid"
  by (induction keys arbitrary: rv) (auto split: if_splits)

lemma validate_fields_given:
  "validate_fields ign tgt valid (map fst m) m = Inr rv \<Longrightarrow>
   rv = (if ign then filter (\<lambda>p. fst p \<in> set valid) m else m)"
  by (cases ign) (auto simp: validate_fields_all_keys dest: validate_fields_strict)

lemma process_targets_given:
  "process_targets self ign m tas ds = Inr ds' \<Longrightarrow>
   ds' = merge_given (targets_given (registered_target_types self) (union_membership self) ign m tas) ds"
proof (induction tas arbitrary: ds)
  case Nil
  then show ?case by simp
next
  case (Cons ta tas)
  from Cons.prems obtain tt rv where
    tt: "map_of (aliases_to_types (registered_target_types self)) ta = Some tt" and
    rv: "validate_fields ign (target_type_alias tt) (valid_field_aliases tt (union_membership self))
           (map fst m) m = Inr rv" and
    rest: "process_targets self ign m tas (setdefault_update (target_type_alias tt) rv ds) = Inr ds'"
    by (auto split: option.splits sum.splits)
  from Cons.IH [OF rest] validate_fields_given [OF rv] tt show ?case
    by simp
qed

lemma process_items_given:
  "process_items self False items ds = Inr ds' \<Longrightarrow>
   ds' = merge_given (items_given (registered_target_types self) (union_membership self) items) ds"
proof (induction items arbitrary: ds)
  case Nil
  then show ?case by simp
next
  case (Cons item items)
  obtain key obj where item: "item = (key, obj)" by (cases item)
  from Cons.prems item obtain m d1 where
    obj: "obj = Dict m" and
    d1: "process_targets self False m (key_targets key) ds = Inr d1" and
    rest: "process_items self False items d1 = Inr ds'"
    by (auto split: py_object.splits sum.splits)
  from Cons.IH [OF rest] process_targets_given [OF d1] show ?case
    by (simp add: item obj)
qed

lemma process_args_given:
  "process_args self args ds = Inr ds' \<Longrightarrow>
   ds' = merge_given (explicit_given (registered_target_types self) (union_membership self) args) ds"
proof (induction args arbitrary: ds)
  case Nil
  then show ?case by (simp add: explicit_given_def)
next
  case (Cons arg args)
  from Cons.prems obtain items d1 where
    arg: "arg = ArgDict items" and
    d1: "process_items self False items ds = Inr d1" and
    rest: "process_args self args d1 = Inr ds'"
    by (cases arg) (auto split: sum.splits)
  from Cons.IH [OF rest] process_items_given [OF d1] show ?case
    by (simp add: arg explicit_given_def)
qed

lemma process_all_None [simp]: "process_all self None ds = Inr ds"
  by (simp add: process_all_def)

lemma process_all_given:
  "process_all self all ds = Inr ds' \<Longrightarrow>
   ds' = merge_given (all_given (registered_target_types self) (union_membership self) all) ds"
proof (cases all)
  case None
  then show "process_all self all ds = Inr ds' \<Longrightarrow> ?thesis" by simp
next
  case (Some obj)
  assume ok: "process_all self all ds = Inr ds'"
  with Some obtain m where obj: "obj = Dict m"
    by (cases obj) (auto simp: process_all_def)
  from ok Some obj have "process_targets self True m (aliases (registered_target_types self)) ds = Inr ds'"
    by (auto simp: process_all_def split: sum.splits)
  from process_targets_given [OF this] show ?thesis
    by (simp add: Some obj)
qed

lemma targets_given_lookup:
  assumes "distinct (map fst a)"
  shows "(k, rv) \<in> set (targets_given rtt um True a tas) \<Longrightarrow>
         map_of (rev rv) f = None \<or> map_of (rev rv) f = map_of a f"
  by (induction tas) (auto simp: map_of_rev_filter [OF assms] split: option.splits if_splits)

lemma targets_given_has:
  "kind \<in> set tas \<Longrightarrow> map_of (aliases_to_types rtt) kind = Some tt \<Longrightarrow>
   (target_type_alias tt, if dr then filter (\<lambda>p. fst p \<in> set (valid_field_aliases tt um)) a else a)
     \<in> set (targets_given rtt um dr a tas)"
  by (induction tas) (auto split: option.splits)

lemma all_given_records:
  assumes kind: "map_of (aliases_to_types rtt) kind = Some tt"
    and f: "f \<in> set (valid_field_aliases tt um)"
    and x: "map_of a f = Some x"
    and dist: "distinct (map fst a)"
  shows "map_of (merged_fields (all_given rtt um (Some (Dict a))) (target_type_alias tt) m0) f = Some x"
proof (rule merged_fields_records)
  show "map_of (rev rv) f = None \<or> map_of (rev rv) f = Some x"
    if "(target_type_alias tt, rv) \<in> set (all_given rtt um (Some (Dict a)))" for rv
    using targets_given_lookup [OF dist, of "target_type_alias tt" rv rtt um "aliases rtt" f] that x
    by simp
  from kind have "kind \<in> set (aliases rtt)"
    by (auto simp: aliases_def dest: map_of_SomeD intro: rev_image_eqI)
  from targets_given_has [OF this kind, of True um a]
  show "(target_type_alias tt, filter (\<lambda>p. fst p \<in> set (valid_field_aliases tt um)) a)
          \<in> set (all_given rtt um (Some (Dict a)))"
    by simp
  show "map_of (rev (filter (\<lambda>p. fst p \<in> set (valid_field_aliases tt um)) a)) f = Some x"
    using f x by (simp add: map_of_rev_filter [OF dist])
qed

lemma all_given_names:
  "map_of (aliases_to_types rtt) kind = Some tt \<Longrightarrow>
   target_type_alias tt \<in> named_kinds (all_given rtt um (Some (Dict a)))"
proof -
  assume kind: "map_of (aliases_to_types rtt) kind = Some tt"
  then have "kind \<in> set (aliases rtt)"
    by (auto simp: aliases_def dest: map_of_SomeD intro: rev_image_eqI)
  from targets_given_has [OF this kind, of True um a] show ?thesis
    by (auto simp: named_kinds_def intro: rev_image_eqI)
qed

section \<open>The working defaults after a call\<close>

lemma set_defaults_nothing: "set_defaults self [] None False kwargs = (None, self)"
  by (simp add: set_defaults_def)

lemma set_defaults_error_state:
  "fst (set_defaults self args all extend' kwargs) = Some e \<Longrightarrow>
   snd (set_defaults self args all extend' kwargs) = self"
  by (auto simp: set_defaults_def Let_def split: sum.splits)

lemma set_defaults_ok:
  assumes "fst (set_defaults self args all extend' kwargs) = None"
  shows "defaults (snd (set_defaults self args all extend' kwargs)) =
           fold store_default
             (merge_given (call_given (registered_target_types self) (union_membership self) all args)
                (if extend' then defaults self else []))
             (defaults self)"
proof -
  let ?ds0 = "if extend' then defaults self else []"
  have ds0: "(if \<not> extend' then [] else map (\<lambda>(k, v). (k, v)) (defaults self)) = ?ds0"
    by simp
  from assms obtain ds1 ds2 where
    ds1: "process_all self all ?ds0 = Inr ds1" and
    ds2: "process_args self args ds1 = Inr ds2" and
    res: "snd (set_defaults self args all extend' kwargs) = self\<lparr>defaults := fold store_default ds2 (defaults self)\<rparr>"
    unfolding set_defaults_def Let_def ds0 by (auto split: sum.splits)
  from process_all_given [OF ds1] process_args_given [OF ds2] res
  show ?thesis
    by (simp add: call_given_def)
qed

lemma get_after_set_defaults:
  assumes ok: "fst (set_defaults self args all extend' kwargs) = None"
    and dist: "extend' \<Longrightarrow> distinct (map fst (defaults self))"
  shows "get (snd (set_defaults self args all extend' kwargs)) k =
           (let given = call_given (registered_target_types self) (union_membership self) all args in
            if extend' then merged_fields given k (get self k)
            else if k \<in> named_kinds given then merged_fields given k []
            else get self k)"
proof -
  let ?given = "call_given (registered_target_types self) (union_membership self) all args"
  let ?ds0 = "if extend' then defaults self else []"
  have d: "distinct (map fst (merge_given ?given ?ds0))"
    using dist by (intro distinct_merge_given) auto
  have "get (snd (set_defaults self args all extend' kwargs)) k
          = dict_get (fold store_default (merge_given ?given ?ds0) (defaults self)) k []"
    by (simp add: get_def set_defaults_ok [OF ok])
  also have "\<dots> = (if k \<in> named_kinds ?given \<union> fst ` set ?ds0
                   then merged_fields ?given k (dict_get ?ds0 k []) else get self k)"
    by (simp add: dict_get_fold_store_default [OF d] keys_merge_given dict_get_merge_given get_def)
  also have "\<dots> = (if extend' then merged_fields ?given k (get self k)
                   else if k \<in> named_kinds ?given then merged_fields ?given k []
                   else get self k)"
    by (auto simp: get_def dict_get_def merged_fields_not_named)
  finally show ?thesis by (simp add: Let_def)
qed

lemma get_named_after_set_defaults:
  assumes ok: "fst (set_defaults self args all extend' kwargs) = None"
    and dist: "extend' \<longrightarrow> distinct (map fst (defaults self))"
    and k: "k \<in> named_kinds (call_given (registered_target_types self) (union_membership self) all args)"
  shows "map_of (get (snd (set_defaults self args all extend' kwargs)) k) =
           map_of (merged_fields (all_given (registered_target_types self) (union_membership self) all) k
                     (if extend' then get self k else []))
           ++ map_of (merged_fields (explicit_given (registered_target_types self) (union_membership self) args) k [])"
proof -
  let ?all = "all_given (registered_target_types self) (union_membership self) all"
  let ?exp = "explicit_given (registered_target_types self) (union_membership self) args"
  from dist have "extend' \<Longrightarrow> distinct (map fst (defaults self))" by simp
  from get_after_set_defaults [OF ok this, of k] k
  have "get (snd (set_defaults self args all extend' kwargs)) k
          = merged_fields (?all @ ?exp) k (if extend' then get self k else [])"
    by (simp add: Let_def call_given_def)
  also have "\<dots> = merged_fields ?exp k (merged_fields ?all k (if extend' then get self k else []))"
    by (simp only: merged_fields_append)
  finally show ?thesis
    by (simp only: map_of_merged_fields [of ?exp k "merged_fields ?all k (if extend' then get self k else [])"])
qed

lemma map_of_unnamed_after_set_defaults:
  assumes ok: "fst (set_defaults self args all False kwargs) = None"
    and k: "k \<notin> named_kinds (call_given (registered_target_types self) (union_membership self) all args)"
  shows "map_of (defaults (snd (set_defaults self args all False kwargs))) k = map_of (defaults self) k"
proof -
  let ?given = "call_given (registered_target_types self) (union_membership self) all args"
  have "distinct (map fst (merge_given ?given []))"
    by (intro distinct_merge_given) simp
  then have "map_of (rev (merge_given ?given [])) k = map_of (merge_given ?given []) k"
    by (simp add: map_of_rev_distinct)
  also have "\<dots> = None"
    using k by (simp add: map_of_merge_given)
  finally show ?thesis
    using set_defaults_ok [OF ok] by (simp add: map_of_fold_store_default)
qed

lemma set_defaults_reset:
  assumes "map_of (aliases_to_types (registered_target_types self)) kind = Some tt"
  shows "set_defaults self [ArgDict [(Str kind, Dict [])]] None False kwargs
           = (None, self\<lparr>defaults := AList.delete (target_type_alias tt) (defaults self)\<rparr>)"
  using assms
  by (simp add: set_defaults_def setdefault_update_def dict_update_def dict_get_def store_default_pair)

section \<open>Calls that raise\<close>

lemma process_targets_append:
  "process_targets self ign m (xs @ ys) ds =
     (case process_targets self ign m xs ds of
        Inl e \<Rightarrow> Inl e
      | Inr ds' \<Rightarrow> process_targets self ign m ys ds')"
  by (induction xs arbitrary: ds) (auto split: option.splits sum.splits)

lemma process_items_append:
  "process_items self ign (xs @ ys) ds =
     (case process_items self ign xs ds of
        Inl e \<Rightarrow> Inl e
      | Inr ds' \<Rightarrow> process_items self ign ys ds')"
proof (induction xs arbitrary: ds)
  case Nil
  then show ?case by simp
next
  case (Cons x xs)
  obtain key obj where x: "x = (key, obj)" by (cases x)
  show ?case
    by (simp add: x Cons.IH split: py_object.splits sum.splits)
qed

lemma process_args_append:
  "process_args self (xs @ ys) ds =
     (case process_args self xs ds of
        Inl e \<Rightarrow> Inl e
      | Inr ds' \<Rightarrow> process_args self ys ds')"
  by (induction xs arbitrary: ds) (auto split: sum.splits)

lemma process_targets_unregistered:
  "bad \<in> set tas \<Longrightarrow> map_of (aliases_to_types (registered_target_types self)) bad = None \<Longrightarrow>
   \<exists>e. process_targets self ign m tas ds = Inl e"
  by (induction tas arbitrary: ds) (auto split: option.splits sum.splits)

lemma process_items_unregistered:
  "(key, obj) \<in> set items \<Longrightarrow> bad \<in> set (key_targets key) \<Longrightarrow>
   map_of (aliases_to_types (registered_target_types self)) bad = None \<Longrightarrow>
   \<exists>e. process_items self ign items ds = Inl e"
proof (induction items arbitrary: ds)
  case Nil
  then show ?case by simp
next
  case (Cons x items)
  obtain key' obj' where x: "x = (key', obj')" by (cases x)
  show ?case
  proof (cases "process_items self ign [x] ds")
    case (Inl e)
    then show ?thesis
      using process_items_append [of self ign "[x]" items ds] by simp
  next
    case (Inr ds')
    have "x \<noteq> (key, obj)"
    proof
      assume "x = (key, obj)"
      with Inr x obtain m where "obj = Dict m" and "process_targets self ign m (key_targets key) ds = Inr ds'"
        by (auto split: py_object.splits sum.splits)
      with process_targets_unregistered [OF Cons.prems(2,3), of ign m ds] show False by auto
    qed
    with Cons.prems have "(key, obj) \<in> set items" by simp
    from Cons.IH [OF this Cons.prems(2,3), of ds'] Inr
    show ?thesis
      using process_items_append [of self ign "[x]" items ds] by simp
  qed
qed

lemma process_args_unregistered:
  "ArgDict items \<in> set args \<Longrightarrow> (key, obj) \<in> set items \<Longrightarrow> bad \<in> set (key_targets key) \<Longrightarrow>
   map_of (aliases_to_types (registered_target_types self)) bad = None \<Longrightarrow>
   \<exists>e. process_args self args ds = Inl e"
proof (induction args arbitrary: ds)
  case Nil
  then show ?case by simp
next
  case (Cons arg args)
  show ?case
  proof (cases "process_defaults self ds arg False")
    case (Inl e)
    then show ?thesis by simp
  next
    case (Inr ds')
    have "arg \<noteq> ArgDict items"
    proof
      assume "arg = ArgDict items"
      with Inr process_items_unregistered [OF Cons.prems(2,3,4), of False ds] show False by auto
    qed
    with Cons.prems have "ArgDict items \<in> set args" by simp
    from Cons.IH [OF this Cons.prems(2,3,4), of ds'] Inr show ?thesis by simp
  qed
qed

lemma validate_fields_first_invalid:
  "set fpre \<subseteq> set valid \<Longrightarrow> f \<notin> set valid \<Longrightarrow>
   validate_fields False tgt valid (fpre @ f # fpost) rv
     = Inl (InvalidFieldException (Unrecognized_field f tgt (sort (remdups valid))))"
  by (induction fpre arbitrary: rv) auto

lemma validate_fields_invalid:
  "f \<in> set keys \<Longrightarrow> f \<notin> set valid \<Longrightarrow> \<exists>e. validate_fields False tgt valid keys rv = Inl e"
  by (induction keys arbitrary: rv) auto

lemma process_targets_invalid_field:
  "kind \<in> set tas \<Longrightarrow> map_of (aliases_to_types (registered_target_types self)) kind = Some tt \<Longrightarrow>
   f \<in> fst ` set m \<Longrightarrow> f \<notin> set (valid_field_aliases tt (union_membership self)) \<Longrightarrow>
   \<exists>e. process_targets self False m tas ds = Inl e"
proof (induction tas arbitrary: ds)
  case Nil
  then show ?case by simp
next
  case (Cons ta tas)
  show ?case
  proof (cases "process_targets self False m [ta] ds")
    case (Inl e)
    then show ?thesis
      using process_targets_append [of self False m "[ta]" tas ds] by simp
  next
    case (Inr ds')
    have "ta \<noteq> kind"
    proof
      assume "ta = kind"
      moreover from Cons.prems(3) have "f \<in> set (map fst m)" by simp
      from validate_fields_invalid [OF this Cons.prems(4)]
      obtain e where "validate_fields False (target_type_alias tt)
          (valid_field_aliases tt (union_membership self)) (map fst m) m = Inl e" by blast
      ultimately show False using Inr Cons.prems(2) by simp
    qed
    with Cons.prems have "kind \<in> set tas" by simp
    from Cons.IH [OF this Cons.prems(2,3,4), of ds'] Inr show ?thesis
      using process_targets_append [of self False m "[ta]" tas ds] by simp
  qed
qed

lemma process_items_fails:
  "(key, Dict m) \<in> set items \<Longrightarrow>
   (\<And>ds. \<exists>e. process_targets self ign m (key_targets key) ds = Inl e) \<Longrightarrow>
   \<exists>e. process_items self ign items ds = Inl e"
proof (induction items arbitrary: ds)
  case Nil
  then show ?case by simp
next
  case (Cons x items)
  show ?case
  proof (cases "process_items self ign [x] ds")
    case (Inl e)
    then show ?thesis
      using process_items_append [of self ign "[x]" items ds] by simp
  next
    case (Inr ds')
    have "x \<noteq> (key, Dict m)"
    proof
      assume "x = (key, Dict m)"
      with Inr Cons.prems(2) [of ds] show False by (auto split: sum.splits)
    qed
    with Cons.prems have "(key, Dict m) \<in> set items" by simp
    from Cons.IH [OF this Cons.prems(2), of ds'] Inr
    show ?thesis
      using process_items_append [of self ign "[x]" items ds] by simp
  qed
qed

lemma process_args_fails:
  "ArgDict items \<in> set args \<Longrightarrow>
   (\<And>ds. \<exists>e. process_items self False items ds = Inl e) \<Longrightarrow>
   \<exists>e. process_args self args ds = Inl e"
proof (induction args arbitrary: ds)
  case Nil
  then show ?case by simp
next
  case (Cons arg args)
  show ?case
  proof (cases "process_defaults self ds arg False")
    case (Inl e)
    then show ?thesis by simp
  next
    case (Inr ds')
    have "arg \<noteq> ArgDict items"
    proof
      assume "arg = ArgDict items"
      with Inr Cons.prems(2) [of ds] show False by auto
    qed
    with Cons.prems have "ArgDict items \<in> set args" by simp
    from Cons.IH [OF this Cons.prems(2), of ds'] Inr show ?thesis by simp
  qed
qed

lemma set_defaults_raises:
  "(\<And>ds. \<exists>e. process_args self args ds = Inl e) \<Longrightarrow>
   \<exists>e. set_defaults self args all extend' kwargs = (Some e, self)"
proof -
  assume fails: "\<And>ds. \<exists>e. process_args self args ds = Inl e"
  show ?thesis
  proof (cases "process_all self all (if \<not> extend' then [] else map (\<lambda>(k, v). (k, v)) (defaults self))")
    case (Inl e)
    then show ?thesis by (simp add: set_defaults_def)
  next
    case (Inr ds1)
    from fails [of ds1] obtain e where "process_args self args ds1 = Inl e" ..
    with Inr show ?thesis by (simp add: set_defaults_def)
  qed
qed

lemma set_defaults_prefix_ok:
  assumes "fst (set_defaults self (pre @ [ArgDict (ipre @ [(Tuple tpre, Dict m)])]) all extend' kwargs) = None"
  obtains ds1 ds2 ds3 ds4 where
    "process_all self all (if \<not> extend' then [] else map (\<lambda>(k, v). (k, v)) (defaults self)) = Inr ds1"
    "process_args self pre ds1 = Inr ds2"
    "process_items self False ipre ds2 = Inr ds3"
    "process_targets self False m tpre ds3 = Inr ds4"
  using assms
  by (auto simp: set_defaults_def Let_def process_args_append process_items_append
           split: sum.splits)

lemma set_defaults_first_failure:
  assumes pre: "fst (set_defaults self (pre @ [ArgDict (ipre @ [(Tuple tpre, Dict m)])]) all extend' kwargs) = None"
    and fail: "\<And>ds. process_targets self False m (t # tpost) ds = Inl e"
    and key: "key_targets key = tpre @ t # tpost"
  shows "set_defaults self (pre @ ArgDict (ipre @ (key, Dict m) # ipost) # post) all extend' kwargs
           = (Some e, self)"
proof -
  from pre obtain ds1 ds2 ds3 ds4 where
    1: "process_all self all (if \<not> extend' then [] else map (\<lambda>(k, v). (k, v)) (defaults self)) = Inr ds1" and
    2: "process_args self pre ds1 = Inr ds2" and
    3: "process_items self False ipre ds2 = Inr ds3" and
    4: "process_targets self False m tpre ds3 = Inr ds4"
    by (rule set_defaults_prefix_ok)
  from 4 fail [of ds4] key have "process_targets self False m (key_targets key) ds3 = Inl e"
    by (simp add: process_targets_append)
  with 3 have "process_items self False (ipre @ (key, Dict m) # ipost) ds2 = Inl e"
    by (simp add: process_items_append)
  with 2 have "process_args self (pre @ ArgDict (ipre @ (key, Dict m) # ipost) # post) ds1 = Inl e"
    by (simp add: process_args_append)
  with 1 show ?thesis
    by (simp add: set_defaults_def)
qed

section \<open>Calls with the \<open>all\<close> mapping only\<close>

lemma process_targets_registered:
  "set tas \<subseteq> fst ` set (aliases_to_types (registered_target_types self)) \<Longrightarrow>
   \<exists>ds'. process_targets self True a tas ds = Inr ds'"
proof (induction tas arbitrary: ds)
  case Nil
  then show ?case by simp
next
  case (Cons ta tas)
  from Cons.prems obtain tt where "map_of (aliases_to_types (registered_target_types self)) ta = Some tt"
    by (auto simp: in_keys_iff)
  with Cons.IH Cons.prems show ?case
    by (simp add: validate_fields_all_keys)
qed

lemma set_defaults_all_only:
  "fst (set_defaults self [] (Some (Dict a)) extend' kwargs) = None"
proof -
  obtain ds' where "process_targets self True a (aliases (registered_target_types self))
      (if \<not> extend' then [] else map (\<lambda>(k, v). (k, v)) (defaults self)) = Inr ds'"
    using process_targets_registered [of "aliases (registered_target_types self)" self a]
    by (auto simp: aliases_def)
  then show ?thesis
    by (simp add: set_defaults_def process_all_def)
qed

lemma merged_fields_untouched:
  "(\<And>rv. (k, rv) \<in> set g \<Longrightarrow> map_of (rev rv) f = None) \<Longrightarrow>
   map_of (merged_fields g k m0) f = map_of m0 f"
proof (induction g arbitrary: m0)
  case Nil
  then show ?case by simp
next
  case (Cons p g)
  obtain a rv where p: "p = (a, rv)" by (cases p)
  have rest: "\<And>rv. (k, rv) \<in> set g \<Longrightarrow> map_of (rev rv) f = None"
    using Cons.prems by simp
  show ?case
  proof (cases "a = k")
    case True
    with Cons.prems [of rv] p have "map_of (rev rv) f = None" by simp
    then have "map_of (dict_update m0 rv) f = map_of m0 f"
      by (simp add: map_of_dict_update map_add_def)
    with Cons.IH [OF rest, of "dict_update m0 rv"] True show ?thesis
      by (simp add: p merged_fields_Cons)
  next
    case False
    with Cons.IH [OF rest, of m0] show ?thesis
      by (simp add: p merged_fields_Cons)
  qed
qed

lemma targets_given_from:
  "(k, rv) \<in> set (targets_given rtt um True a tas) \<Longrightarrow>
   \<exists>kind tt. map_of (aliases_to_types rtt) kind = Some tt \<and> target_type_alias tt = k \<and>
             rv = filter (\<lambda>p. fst p \<in> set (valid_field_aliases tt um)) a"
proof (induction tas)
  case Nil
  then show ?case by simp
next
  case (Cons ta tas)
  show ?case
  proof (cases "map_of (aliases_to_types rtt) ta")
    case None
    with Cons show ?thesis by simp
  next
    case (Some tt')
    with Cons.prems
    have "(target_type_alias tt' = k \<and> rv = filter (\<lambda>p. fst p \<in> set (valid_field_aliases tt' um)) a)
            \<or> (k, rv) \<in> set (targets_given rtt um True a tas)"
      by auto
    then show ?thesis
    proof
      assume "target_type_alias tt' = k \<and> rv = filter (\<lambda>p. fst p \<in> set (valid_field_aliases tt' um)) a"
      with Some show ?thesis by blast
    next
      assume "(k, rv) \<in> set (targets_given rtt um True a tas)"
      then show ?thesis by (rule Cons.IH)
    qed
  qed
qed

lemma map_of_rev_filter_out:
  "f \<notin> V \<Longrightarrow> map_of (rev (filter (\<lambda>p. fst p \<in> V) a)) f = None"
  by (auto simp: map_of_eq_None_iff)

lemma all_given_leaves_out:
  assumes "\<And>kind tt. map_of (aliases_to_types rtt) kind = Some tt \<Longrightarrow> target_type_alias tt = k \<Longrightarrow>
             f \<notin> set (valid_field_aliases tt um)"
  shows "map_of (merged_fields (all_given rtt um (Some (Dict a))) k m0) f = map_of m0 f"
proof (rule merged_fields_untouched)
  fix rv
  assume "(k, rv) \<in> set (all_given rtt um (Some (Dict a)))"
  then obtain kind tt where
    "map_of (aliases_to_types rtt) kind = Some tt" "target_type_alias tt = k"
    "rv = filter (\<lambda>p. fst p \<in> set (valid_field_aliases tt um)) a"
    using targets_given_from [of k rv rtt um a "aliases rtt"] by auto
  with assms [of kind tt] show "map_of (rev rv) f = None"
    by (simp add: map_of_rev_filter_out)
qed

section \<open>Freezing\<close>

lemma freeze_targets_keys:
  "freeze_targets self ds acc = Inr t \<Longrightarrow> fst ` set t = fst ` set acc \<union> fst ` set ds"
proof (induction ds arbitrary: acc)
  case Nil
  then show ?case by simp
next
  case (Cons p ds)
  obtain a m where p: "p = (a, m)" by (cases p)
  from Cons.prems p obtain m' where
    m': "freeze_fields self a m [] = Inr m'" and
    rest: "freeze_targets self ds (AList.update a m' acc) = Inr t"
    by (auto split: sum.splits)
  from Cons.IH [OF rest] show ?case
    by (auto simp: p dom_update)
qed

lemma get_frozen_defaults_keys:
  "fst (get_frozen_defaults self) = Inr t \<Longrightarrow> fst ` set t = fst ` set (defaults self)"
  by (simp add: get_frozen_defaults_def freeze_targets_keys)

lemma freeze_field_no_match:
  "(\<And>ft. ft \<in> set fts \<Longrightarrow> \<not> matches fa ft) \<Longrightarrow> freeze_field addr fa raw fts acc = Inr acc"
  by (induction fts arbitrary: acc) (auto simp: matches_def)

lemma freeze_field_keys:
  "freeze_field addr fa raw fts acc = Inr acc' \<Longrightarrow>
   fst ` set acc' = fst ` set acc \<union> {field_type_alias ft | ft. ft \<in> set fts \<and> matches fa ft}"
proof (induction fts arbitrary: acc)
  case Nil
  then show ?case by simp
next
  case (Cons ft fts)
  show ?case
  proof (cases "matches fa ft")
    case True
    with Cons.prems obtain v where
      rest: "freeze_field addr fa raw fts (AList.update (field_type_alias ft) v acc) = Inr acc'"
      by (auto simp: matches_def split: sum.splits)
    from Cons.IH [OF rest] True show ?thesis
      by (auto simp: dom_update)
  next
    case False
    with Cons.prems have "freeze_field addr fa raw fts acc = Inr acc'"
      by (auto simp: matches_def)
    from Cons.IH [OF this] False show ?thesis
      by auto
  qed
qed

lemma freeze_field_values:
  "freeze_field addr fa raw fts acc = Inr acc' \<Longrightarrow> map_of acc' k = Some v \<Longrightarrow>
   map_of acc k = Some v \<or>
   (\<exists>ft \<in> set fts. matches fa ft \<and> field_type_alias ft = k \<and> compute_value ft raw addr = Inr v)"
proof (induction fts arbitrary: acc)
  case Nil
  then show ?case by simp
next
  case (Cons ft fts)
  show ?case
  proof (cases "matches fa ft")
    case True
    with Cons.prems(1) obtain w where
      w: "compute_value ft raw addr = Inr w" and
      rest: "freeze_field addr fa raw fts (AList.update (field_type_alias ft) w acc) = Inr acc'"
      by (auto simp: matches_def split: sum.splits)
    from Cons.IH [OF rest Cons.prems(2)] True w show ?thesis
      by (auto simp: update_conv' split: if_splits)
  next
    case False
    with Cons.prems(1) have "freeze_field addr fa raw fts acc = Inr acc'"
      by (auto simp: matches_def)
    from Cons.IH [OF this Cons.prems(2)] show ?thesis
      by auto
  qed
qed

lemma freeze_fields_keys:
  assumes reg: "map_of (aliases_to_types (registered_target_types self)) kind = Some tt"
  shows "freeze_fields self kind fs acc = Inr acc' \<Longrightarrow>
   fst ` set acc' = fst ` set acc \<union>
     {field_type_alias ft | ft fa raw.
        (fa, raw) \<in> set fs \<and> ft \<in> set (class_field_types tt (union_membership self)) \<and> matches fa ft}"
proof (induction fs arbitrary: acc)
  case Nil
  then show ?case by simp
next
  case (Cons p fs)
  obtain fa raw where p: "p = (fa, raw)" by (cases p)
  from Cons.prems p reg obtain acc1 where
    one: "freeze_field (address self) fa raw (class_field_types tt (union_membership self)) acc = Inr acc1" and
    rest: "freeze_fields self kind fs acc1 = Inr acc'"
    by (auto split: sum.splits)
  have split: "{field_type_alias ft | ft fa' raw'.
        (fa', raw') \<in> set (p # fs) \<and> ft \<in> set (class_field_types tt (union_membership self)) \<and> matches fa' ft}
      = {field_type_alias ft | ft. ft \<in> set (class_field_types tt (union_membership self)) \<and> matches fa ft}
        \<union> {field_type_alias ft | ft fa' raw'.
        (fa', raw') \<in> set fs \<and> ft \<in> set (class_field_types tt (union_membership self)) \<and> matches fa' ft}"
    unfolding p by (rule set_eqI) (simp, blast)
  show ?case
    unfolding split Cons.IH [OF rest] freeze_field_keys [OF one] by (simp add: Un_assoc)
qed

lemma freeze_fields_values:
  assumes reg: "map_of (aliases_to_types (registered_target_types self)) kind = Some tt"
  shows "freeze_fields self kind fs acc = Inr acc' \<Longrightarrow> map_of acc' k = Some v \<Longrightarrow>
   map_of acc k = Some v \<or>
   (\<exists>ft fa raw. (fa, raw) \<in> set fs \<and> ft \<in> set (class_field_types tt (union_membership self)) \<and>
       matches fa ft \<and> field_type_alias ft = k \<and> compute_value ft raw (address self) = Inr v)"
proof (induction fs arbitrary: acc)
  case Nil
  then show ?case by simp
next
  case (Cons p fs)
  obtain fa raw where p: "p = (fa, raw)" by (cases p)
  from Cons.prems(1) p reg obtain acc1 where
    one: "freeze_field (address self) fa raw (class_field_types tt (union_membership self)) acc = Inr acc1" and
    rest: "freeze_fields self kind fs acc1 = Inr acc'"
    by (auto split: sum.splits)
  from Cons.IH [OF rest Cons.prems(2)]
  show ?case
  proof
    assume "map_of acc1 k = Some v"
    from freeze_field_values [OF one this] show ?thesis
      by (auto simp: p)
  next
    assume "\<exists>ft fa raw. (fa, raw) \<in> set fs \<and> ft \<in> set (class_field_types tt (union_membership self)) \<and>
       matches fa ft \<and> field_type_alias ft = k \<and> compute_value ft raw (address self) = Inr v"
    then show ?thesis by (auto simp: p)
  qed
qed

lemma freeze_fields_delete:
  assumes reg: "map_of (aliases_to_types (registered_target_types self)) kind = Some tt"
    and none: "\<And>ft. ft \<in> set (class_field_types tt (union_membership self)) \<Longrightarrow> \<not> matches fa ft"
  shows "freeze_fields self kind (AList.delete fa fs) acc = freeze_fields self kind fs acc"
proof (induction fs arbitrary: acc)
  case Nil
  then show ?case by simp
next
  case (Cons p fs)
  obtain fa' raw where p: "p = (fa', raw)" by (cases p)
  show ?case
  proof (cases "fa' = fa")
    case True
    with freeze_field_no_match [of "class_field_types tt (union_membership self)" fa "address self" raw acc] none
    show ?thesis
      by (simp add: p reg Cons.IH)
  next
    case False
    then show ?thesis
      by (simp add: p reg Cons.IH split: sum.splits)
  qed
qed

lemma freeze_targets_other:
  "freeze_targets self ds acc = Inr t \<Longrightarrow> k \<notin> fst ` set ds \<Longrightarrow> map_of t k = map_of acc k"
proof (induction ds arbitrary: acc)
  case Nil
  then show ?case by simp
next
  case (Cons p ds)
  obtain a fs where p: "p = (a, fs)" by (cases p)
  from Cons.prems p obtain m where
    rest: "freeze_targets self ds (AList.update a m acc) = Inr t"
    by (auto split: sum.splits)
  from Cons.prems(2) p have "k \<notin> fst ` set ds" "k \<noteq> a" by auto
  with Cons.IH [OF rest] show ?case
    by (simp add: update_conv')
qed

lemma freeze_targets_entry:
  "freeze_targets self ds acc = Inr t \<Longrightarrow> distinct (map fst ds) \<Longrightarrow> (kind, fs) \<in> set ds \<Longrightarrow>
   \<exists>m. freeze_fields self kind fs [] = Inr m \<and> map_of t kind = Some m"
proof (induction ds arbitrary: acc)
  case Nil
  then show ?case by simp
next
  case (Cons p ds)
  obtain a fs' where p: "p = (a, fs')" by (cases p)
  from Cons.prems(1) p obtain m where
    m: "freeze_fields self a fs' [] = Inr m" and
    rest: "freeze_targets self ds (AList.update a m acc) = Inr t"
    by (auto split: sum.splits)
  show ?case
  proof (cases "(kind, fs) = (a, fs')")
    case True
    with Cons.prems(2) p have "kind \<notin> fst ` set ds" by auto
    from freeze_targets_other [OF rest this] True m show ?thesis
      by (simp add: update_conv')
  next
    case False
    with Cons.prems p have "(kind, fs) \<in> set ds" "distinct (map fst ds)" by auto
    from Cons.IH [OF rest this(2) this(1)] show ?thesis .
  qed
qed

lemma freeze_targets_source:
  "freeze_targets self ds acc = Inr t \<Longrightarrow> map_of t kind = Some m \<Longrightarrow>
   map_of acc kind = Some m \<or> (\<exists>fs. (kind, fs) \<in> set ds \<and> freeze_fields self kind fs [] = Inr m)"
proof (induction ds arbitrary: acc)
  case Nil
  then show ?case by simp
next
  case (Cons p ds)
  obtain a fs' where p: "p = (a, fs')" by (cases p)
  from Cons.prems(1) p obtain m' where
    m': "freeze_fields self a fs' [] = Inr m'" and
    rest: "freeze_targets self ds (AList.update a m' acc) = Inr t"
    by (auto split: sum.splits)
  from Cons.IH [OF rest Cons.prems(2)] m' show ?case
    by (auto simp: p update_conv' split: if_splits)
qed

lemma freeze_targets_update:
  "map_of ds kind = Some f1 \<Longrightarrow> freeze_fields self kind f2 [] = freeze_fields self kind f1 [] \<Longrightarrow>
   freeze_targets self (AList.update kind f2 ds) acc = freeze_targets self ds acc"
proof (induction ds arbitrary: acc)
  case Nil
  then show ?case by simp
next
  case (Cons p ds)
  obtain a fs where p: "p = (a, fs)" by (cases p)
  show ?case
  proof (cases "a = kind")
    case True
    with Cons.prems p show ?thesis by simp
  next
    case False
    with Cons.prems p have "map_of ds kind = Some f1" by simp
    from Cons.IH [OF this Cons.prems(2)] False show ?thesis
      by (simp add: p split: sum.splits)
  qed
qed

section \<open>The operations on objects compute the operations on values\<close>

lemma values_of_simps [simp]:
  "address (values_of (h, self)) = obj_address self"
  "defaults (values_of (h, self)) = deref h (obj_defaults self)"
  "registered_target_types (values_of (h, self)) = obj_registered_target_types self"
  "union_membership (values_of (h, self)) = obj_union_membership self"
  by (simp_all add: values_of_def)

lemma deref_Nil [simp]: "deref h [] = []"
  by (simp add: deref_def)

lemma deref_Cons [simp]: "deref h ((k, r) # ds) = (k, h ! r) # deref h ds"
  by (simp add: deref_def)

lemma deref_append [simp]: "deref h (ds @ ds') = deref h ds @ deref h ds'"
  by (simp add: deref_def)

lemma keys_deref [simp]: "map fst (deref h ds) = map fst ds"
  by (induction ds) auto

lemma map_of_deref: "map_of (deref h ds) a = map_option (\<lambda>r. h ! r) (map_of ds a)"
  by (induction ds) auto

lemma deref_frame:
  "(\<And>r. r \<in> snd ` set ds \<Longrightarrow> h' ! r = h ! r) \<Longrightarrow> deref h' ds = deref h ds"
  by (induction ds) auto

lemma deref_write:
  "map_of ds a = Some r \<Longrightarrow> distinct (map snd ds) \<Longrightarrow> r < length h \<Longrightarrow>
   deref (h[r := x]) ds = AList.update a x (deref h ds)"
proof (induction ds)
  case Nil
  then show ?case by simp
next
  case (Cons p ds)
  obtain k r' where p: "p = (k, r')" by (cases p)
  show ?case
  proof (cases "k = a")
    case True
    with Cons.prems p have r: "r' = r" and "r \<notin> snd ` set ds" by auto
    then have "deref (h[r := x]) ds = deref h ds"
      by (intro deref_frame) (metis nth_list_update_neq)
    with True r Cons.prems(3) show ?thesis
      by (simp add: p)
  next
    case False
    with Cons.prems p have "map_of ds a = Some r" by simp
    then have "r \<in> snd ` set ds"
      by (auto dest!: map_of_SomeD intro: rev_image_eqI)
    with Cons.prems p have "r' \<noteq> r" by auto
    with Cons.IH Cons.prems \<open>map_of ds a = Some r\<close> False show ?thesis
      by (simp add: p)
  qed
qed

lemma deref_delete: "deref h (AList.delete k ds) = AList.delete k (deref h ds)"
  by (induction ds) auto

lemma deref_update: "deref h (AList.update k r ds) = AList.update k (h ! r) (deref h ds)"
  by (induction ds) auto

lemma setdefault_update_obj_sim:
  assumes inv: "scratch_inv base h ds"
    and res: "setdefault_update_obj a rv (h, ds) = (h', ds')"
  shows "deref h' ds' = setdefault_update a rv (deref h ds) \<and> scratch_inv base h' ds' \<and>
         (\<forall>r < base. h' ! r = h ! r)"
proof (cases "map_of ds a")
  case None
  with res have h': "h' = h @ [dict_update [] rv]" and ds': "ds' = AList.update a (length h) ds"
    by auto
  from None have new: "a \<notin> fst ` set ds"
    by (simp add: map_of_eq_None_iff)
  then have ds'': "ds' = ds @ [(a, length h)]"
    by (simp add: ds' update_new_key)
  from inv have old: "deref h' ds = deref h ds"
    unfolding h' by (intro deref_frame) (auto simp: scratch_inv_def nth_append)
  from new have "a \<notin> fst ` set (deref h ds)"
    by (metis keys_deref set_map)
  then have "setdefault_update a rv (deref h ds) = deref h ds @ [(a, dict_update [] rv)]"
    by (simp add: setdefault_update_def dict_get_def map_of_deref None update_new_key)
  with old have 1: "deref h' ds' = setdefault_update a rv (deref h ds)"
    by (simp add: ds'' h')
  from inv have 2: "scratch_inv base h' ds'"
    by (auto simp: scratch_inv_def ds'' h')
  from inv have 3: "\<forall>r < base. h' ! r = h ! r"
    by (auto simp: scratch_inv_def h' nth_append)
  from 1 2 3 show ?thesis by simp
next
  case (Some r)
  with res have h': "h' = h[r := dict_update (h ! r) rv]" and ds': "ds' = ds"
    by auto
  from Some have "r \<in> snd ` set ds"
    by (auto dest!: map_of_SomeD intro: rev_image_eqI)
  with inv have r: "base \<le> r" "r < length h" and d: "distinct (map snd ds)"
    by (auto simp: scratch_inv_def)
  have "dict_get (deref h ds) a [] = h ! r"
    by (simp add: dict_get_def map_of_deref Some)
  with deref_write [OF Some d r(2)] have 1: "deref h' ds' = setdefault_update a rv (deref h ds)"
    by (simp add: h' ds' setdefault_update_def)
  from inv have 2: "scratch_inv base h' ds'"
    by (simp add: scratch_inv_def h' ds')
  from r have 3: "\<forall>r < base. h' ! r = h ! r"
    by (simp add: h')
  from 1 2 3 show ?thesis by simp
qed

lemma process_targets_obj_sim:
  "scratch_inv base h ds \<Longrightarrow>
   outcome (process_targets_obj self ign m tas (h, ds))
     = process_targets (values_of (h0, self)) ign m tas (deref h ds) \<and>
   kept base h (process_targets_obj self ign m tas (h, ds))"
proof (induction tas arbitrary: h ds)
  case Nil
  then show ?case by (simp add: outcome_def kept_def)
next
  case (Cons ta tas)
  show ?case
  proof (cases "map_of (aliases_to_types (obj_registered_target_types self)) ta")
    case None
    with Cons.prems show ?thesis by (simp add: outcome_def kept_def)
  next
    case (Some tt)
    show ?thesis
    proof (cases "validate_fields ign (target_type_alias tt)
                    (valid_field_aliases tt (obj_union_membership self)) (map fst m) m")
      case (Inl e)
      with Some Cons.prems show ?thesis by (simp add: outcome_def kept_def)
    next
      case (Inr rv)
      obtain h1 ds1 where step: "setdefault_update_obj (target_type_alias tt) rv (h, ds) = (h1, ds1)"
        by (cases "setdefault_update_obj (target_type_alias tt) rv (h, ds)")
      from setdefault_update_obj_sim [OF Cons.prems step]
      have 1: "deref h1 ds1 = setdefault_update (target_type_alias tt) rv (deref h ds)"
        and 2: "scratch_inv base h1 ds1" and 3: "\<forall>r < base. h1 ! r = h ! r"
        by simp_all
      from Cons.IH [OF 2] 3
      have "outcome (process_targets_obj self ign m tas (h1, ds1))
              = process_targets (values_of (h0, self)) ign m tas (deref h1 ds1)"
        and "kept base h (process_targets_obj self ign m tas (h1, ds1))"
        by (auto simp: kept_def)
      with Some Inr step 1 show ?thesis by simp
    qed
  qed
qed

lemma process_items_obj_sim:
  "scratch_inv base h ds \<Longrightarrow>
   outcome (process_items_obj self ign items (h, ds))
     = process_items (values_of (h0, self)) ign items (deref h ds) \<and>
   kept base h (process_items_obj self ign items (h, ds))"
proof (induction items arbitrary: h ds)
  case Nil
  then show ?case by (simp add: outcome_def kept_def)
next
  case (Cons item items)
  obtain key obj where item: "item = (key, obj)" by (cases item)
  show ?case
  proof (cases obj)
    case (NotDict r ty)
    with Cons.prems item show ?thesis by (simp add: outcome_def kept_def)
  next
    case (Dict m)
    obtain res h1 ds1 where step: "process_targets_obj self ign m (key_targets key) (h, ds) = (res, h1, ds1)"
      by (cases "process_targets_obj self ign m (key_targets key) (h, ds)")
    from process_targets_obj_sim [OF Cons.prems, of self ign m "key_targets key" h0] step
    have 1: "process_targets (values_of (h0, self)) ign m (key_targets key) (deref h ds)
               = (case res of None \<Rightarrow> Inr (deref h1 ds1) | Some e \<Rightarrow> Inl e)"
      and 2: "scratch_inv base h1 ds1" and 3: "\<forall>r < base. h1 ! r = h ! r"
      by (simp_all add: outcome_def kept_def)
    show ?thesis
    proof (cases res)
      case None
      from Cons.IH [OF 2] 3
      have "outcome (process_items_obj self ign items (h1, ds1))
              = process_items (values_of (h0, self)) ign items (deref h1 ds1)"
        and "kept base h (process_items_obj self ign items (h1, ds1))"
        by (auto simp: kept_def)
      with None item Dict step 1 show ?thesis by simp
    next
      case (Some e)
      with item Dict step 1 2 3 show ?thesis by (simp add: outcome_def kept_def)
    qed
  qed
qed

lemma process_defaults_obj_sim:
  "scratch_inv base h ds \<Longrightarrow>
   outcome (process_defaults_obj self (h, ds) arg ign)
     = process_defaults (values_of (h0, self)) (deref h ds) arg ign \<and>
   kept base h (process_defaults_obj self (h, ds) arg ign)"
  by (cases arg) (simp_all add: process_items_obj_sim, simp add: outcome_def kept_def)

lemma process_args_obj_sim:
  "scratch_inv base h ds \<Longrightarrow>
   outcome (process_args_obj self args (h, ds))
     = process_args (values_of (h0, self)) args (deref h ds) \<and>
   kept base h (process_args_obj self args (h, ds))"
proof (induction args arbitrary: h ds)
  case Nil
  then show ?case by (simp add: outcome_def kept_def)
next
  case (Cons arg args)
  obtain res h1 ds1 where step: "process_defaults_obj self (h, ds) arg False = (res, h1, ds1)"
    by (cases "process_defaults_obj self (h, ds) arg False")
  from process_defaults_obj_sim [OF Cons.prems, of self arg False h0] step
  have 1: "process_defaults (values_of (h0, self)) (deref h ds) arg False
             = (case res of None \<Rightarrow> Inr (deref h1 ds1) | Some e \<Rightarrow> Inl e)"
    and 2: "scratch_inv base h1 ds1" and 3: "\<forall>r < base. h1 ! r = h ! r"
    by (simp_all add: outcome_def kept_def)
  show ?case
  proof (cases res)
    case None
    from Cons.IH [OF 2] 3
    have "outcome (process_args_obj self args (h1, ds1))
            = process_args (values_of (h0, self)) args (deref h1 ds1)"
      and "kept base h (process_args_obj self args (h1, ds1))"
      by (auto simp: kept_def)
    with None step 1 show ?thesis by simp
  next
    case (Some e)
    with step 1 2 3 show ?thesis by (simp add: outcome_def kept_def)
  qed
qed

lemma process_all_obj_sim:
  "scratch_inv base h ds \<Longrightarrow>
   outcome (process_all_obj self all (h, ds))
     = process_all (values_of (h0, self)) all (deref h ds) \<and>
   kept base h (process_all_obj self all (h, ds))"
proof (cases all)
  case None
  assume "scratch_inv base h ds"
  with None show ?thesis
    by (simp add: process_all_obj_def process_all_def outcome_def kept_def)
next
  case (Some a)
  assume "scratch_inv base h ds"
  from process_defaults_obj_sim [OF this] Some show ?thesis
    by (simp only: process_all_obj_def process_all_def option.case values_of_simps)
qed

lemma copy_defaults_sim:
  "copy_defaults items h = (h', ds) \<Longrightarrow> (\<forall>r \<in> snd ` set items. r < length h) \<Longrightarrow>
   deref h' ds = deref h items \<and> length h \<le> length h' \<and>
   (\<forall>r \<in> snd ` set ds. length h \<le> r \<and> r < length h') \<and> distinct (map snd ds) \<and>
   (\<forall>r < length h. h' ! r = h ! r)"
proof (induction items arbitrary: h h' ds)
  case Nil
  then show ?case by simp
next
  case (Cons p items)
  obtain k r where p: "p = (k, r)" by (cases p)
  obtain ds1 where rest: "copy_defaults items (h @ [h ! r]) = (h', ds1)" and ds: "ds = (k, length h) # ds1"
    using Cons.prems(1) p by (auto split: prod.splits)
  from Cons.prems(2) p have r: "r < length h" and refs: "\<forall>r' \<in> snd ` set items. r' < length (h @ [h ! r])"
    by auto
  from Cons.IH [OF rest refs]
  have 1: "deref h' ds1 = deref (h @ [h ! r]) items" and 2: "length h < length h'"
    and 3: "\<forall>r' \<in> snd ` set ds1. length h < r' \<and> r' < length h'" and 4: "distinct (map snd ds1)"
    and 5: "\<forall>r' < length h + 1. h' ! r' = (h @ [h ! r]) ! r'"
    by auto
  from Cons.prems(2) p have "deref (h @ [h ! r]) items = deref h items"
    by (intro deref_frame) (auto simp: nth_append)
  moreover from 5 have "h' ! length h = h ! r"
    by simp
  moreover from 5 have "\<forall>r' < length h. h' ! r' = h ! r'"
    by (auto simp: nth_append)
  moreover from 3 have "length h \<notin> snd ` set ds1"
    by auto
  ultimately show ?case
    using 1 2 3 4 by (auto simp: p ds)
qed

lemma deref_fold_store_default_obj:
  "deref h (fold (store_default_obj h) ds2 ds) = fold store_default (deref h ds2) (deref h ds)"
proof (induction ds2 arbitrary: ds)
  case Nil
  then show ?case by simp
next
  case (Cons p ds2)
  obtain k r where p: "p = (k, r)" by (cases p)
  have "deref h (store_default_obj h (k, r) ds) = store_default (k, h ! r) (deref h ds)"
    by (simp add: store_default_obj_def store_default_pair deref_delete deref_update)
  with Cons.IH [of "store_default_obj h (k, r) ds"] show ?case
    by (simp add: p)
qed

lemma refs_fold_store_default_obj:
  "snd ` set (fold (store_default_obj h) ds2 ds) \<subseteq> snd ` set ds2 \<union> snd ` set ds"
proof (induction ds2 arbitrary: ds)
  case Nil
  then show ?case by simp
next
  case (Cons p ds2)
  obtain k r where p: "p = (k, r)" by (cases p)
  have "snd ` set (store_default_obj h (k, r) ds) \<subseteq> insert r (snd ` set ds)"
  proof (cases "h ! r = []")
    case True
    then show ?thesis
      by (auto simp: store_default_obj_def AList.delete_eq)
  next
    case False
    have "set (AList.update k r ds) \<subseteq> insert (k, r) (set ds)"
      by (induction ds) auto
    with False show ?thesis
      by (auto simp: store_default_obj_def)
  qed
  with Cons.IH [of "store_default_obj h (k, r) ds"] show ?case
    by (auto simp: p)
qed

lemma set_defaults_obj_sim:
  assumes alloc: "allocated (h, self)"
    and res: "set_defaults_obj (h, self) args all extend' kwargs = (res, h', self')"
  shows "set_defaults (values_of (h, self)) args all extend' kwargs = (res, values_of (h', self')) \<and>
         allocated (h', self') \<and> (\<forall>r < length h. h' ! r = h ! r)"
proof -
  from alloc have refs: "\<forall>r \<in> snd ` set (obj_defaults self). r < length h"
    by (simp add: allocated_def)
  obtain h0 ds0 where s0: "(if \<not> extend' then (h, []) else copy_defaults (obj_defaults self) h) = (h0, ds0)"
    by (cases "if \<not> extend' then (h, []) else copy_defaults (obj_defaults self) h")
  have v0: "deref h0 ds0 = (if \<not> extend' then [] else map (\<lambda>(k, v). (k, v)) (defaults (values_of (h, self))))"
    and inv0: "scratch_inv (length h) h0 ds0" and fr0: "\<forall>r < length h. h0 ! r = h ! r"
  proof -
    show "deref h0 ds0 = (if \<not> extend' then [] else map (\<lambda>(k, v). (k, v)) (defaults (values_of (h, self))))"
      using s0 copy_defaults_sim [of "obj_defaults self" h h0 ds0] refs
      by (auto split: if_splits)
    show "scratch_inv (length h) h0 ds0"
      using s0 copy_defaults_sim [of "obj_defaults self" h h0 ds0] refs
      by (auto simp: scratch_inv_def split: if_splits)
    show "\<forall>r < length h. h0 ! r = h ! r"
      using s0 copy_defaults_sim [of "obj_defaults self" h h0 ds0] refs
      by (auto split: if_splits)
  qed
  obtain r1 h1 ds1 where s1: "process_all_obj self all (h0, ds0) = (r1, h1, ds1)"
    by (cases "process_all_obj self all (h0, ds0)")
  from process_all_obj_sim [OF inv0, of self all h] s1
  have p1: "process_all (values_of (h, self)) all (deref h0 ds0)
              = (case r1 of None \<Rightarrow> Inr (deref h1 ds1) | Some e \<Rightarrow> Inl e)"
    and inv1: "scratch_inv (length h) h1 ds1" and fr1: "\<forall>r < length h. h1 ! r = h0 ! r"
    by (simp_all add: outcome_def kept_def)
  have old: "deref h'' (obj_defaults self) = deref h (obj_defaults self)"
    if "\<forall>r < length h. h'' ! r = h ! r" for h''
    using that refs by (intro deref_frame) auto
  show ?thesis
  proof (cases r1)
    case (Some e)
    with res s0 s1 have "res = Some e" "h' = h1" "self' = self"
      by (simp_all add: set_defaults_obj_def)
    moreover from fr0 fr1 have fr: "\<forall>r < length h. h1 ! r = h ! r" by simp
    moreover from inv1 refs have "allocated (h1, self)"
      by (auto simp: allocated_def scratch_inv_def)
    moreover have "values_of (h1, self) = values_of (h, self)"
      by (simp add: values_of_def old [OF fr])
    ultimately show ?thesis
      using Some p1 v0 by (simp add: set_defaults_def)
  next
    case None
    obtain r2 h2 ds2 where s2: "process_args_obj self args (h1, ds1) = (r2, h2, ds2)"
      by (cases "process_args_obj self args (h1, ds1)")
    from process_args_obj_sim [OF inv1, of self args h] s2
    have p2: "process_args (values_of (h, self)) args (deref h1 ds1)
                = (case r2 of None \<Rightarrow> Inr (deref h2 ds2) | Some e \<Rightarrow> Inl e)"
      and inv2: "scratch_inv (length h) h2 ds2" and fr2: "\<forall>r < length h. h2 ! r = h1 ! r"
      by (simp_all add: outcome_def kept_def)
    from fr0 fr1 fr2 have fr: "\<forall>r < length h. h2 ! r = h ! r" by simp
    show ?thesis
    proof (cases r2)
      case (Some e)
      with res s0 s1 s2 None have "res = Some e" "h' = h2" "self' = self"
        by (simp_all add: set_defaults_obj_def)
      moreover from inv2 refs have "allocated (h2, self)"
        by (auto simp: allocated_def scratch_inv_def)
      moreover have "values_of (h2, self) = values_of (h, self)"
        by (simp add: values_of_def old [OF fr])
      ultimately show ?thesis
        using Some None p1 p2 v0 fr by (simp add: set_defaults_def)
    next
      case r2: None
      with res s0 s1 s2 None have r: "res = None" "h' = h2"
        "self' = self\<lparr>obj_defaults := fold (store_default_obj h2) ds2 (obj_defaults self)\<rparr>"
        by (auto simp: set_defaults_obj_def)
      have "deref h2 (fold (store_default_obj h2) ds2 (obj_defaults self))
              = fold store_default (deref h2 ds2) (deref h (obj_defaults self))"
        by (simp add: deref_fold_store_default_obj old [OF fr])
      then have "values_of (h', self')
                   = (values_of (h, self))\<lparr>defaults := fold store_default (deref h2 ds2)
                        (defaults (values_of (h, self)))\<rparr>"
        by (simp add: r values_of_def)
      moreover have "allocated (h', self')"
      proof -
        have "r < length h2" if "r \<in> snd ` set (fold (store_default_obj h2) ds2 (obj_defaults self))" for r
        proof -
          from that refs_fold_store_default_obj [of h2 ds2 "obj_defaults self"]
          have "r \<in> snd ` set ds2 \<or> r \<in> snd ` set (obj_defaults self)" by blast
          with inv2 refs show ?thesis
            by (fastforce simp: scratch_inv_def)
        qed
        then show ?thesis
          by (simp add: r allocated_def)
      qed
      ultimately show ?thesis
        using r r2 None p1 p2 v0 fr by (simp add: set_defaults_def)
    qed
  qed
qed

lemma deref_zip_upt:
  "deref (h @ map snd parent) (zip (map fst parent) [length h ..< length h + length parent]) = parent"
  by (rule nth_equalityI) (simp_all add: deref_def nth_append)

lemma create_obj_sim:
  "values_of (create_obj path parent rtt um h) = create path parent rtt um \<and>
   allocated (create_obj path parent rtt um h)"
proof -
  have "r < length h + length parent"
    if "r \<in> snd ` set (zip (map fst parent) [length h ..< length h + length parent])" for r
  proof -
    from that obtain k where "(k, r) \<in> set (zip (map fst parent) [length h ..< length h + length parent])"
      by auto
    then have "r \<in> set [length h ..< length h + length parent]"
      by (rule set_zip_rightD)
    then show ?thesis by simp
  qed
  then show ?thesis
    by (simp add: create_obj_def values_of_def create_def deref_zip_upt allocated_def)
qed

section \<open>The claims\<close>

text \<open>
  Claim C1, as the spec states it: for every parent table, freezing after no directive
  with \<open>extend=false\<close> yields an empty table. The code does otherwise: \<open>create\<close> copies the
  parent table into the working defaults whatever \<open>extend\<close> will be, and a call without
  directives stores nothing. With the parent table \<open>{"target": {"tags": ("root-tag",)}}\<close>
  the frozen table is the parent table, which is not empty.
\<close>

theorem freeze_without_directives_not_empty:
  "fst (get_frozen_defaults (snd (set_defaults
      (create '''' [(''target'', [(''tags'', PyTuple [PyStr ''root-tag''])])] test_types ())
      [] None False [])))
   = Inr [(''target'', [(''tags'', PyTuple [PyStr ''root-tag''])])] \<and>
   fst (get_frozen_defaults (snd (set_defaults
      (create '''' [(''target'', [(''tags'', PyTuple [PyStr ''root-tag''])])] test_types ())
      [] None False [])))
   \<noteq> Inr []"
  by (simp add: set_defaults_def create_def get_frozen_defaults_def test_types_def
        GenericTarget_def Tags_def Description_def Dependencies_def)

text \<open>
  Claim C1, amended: for every parent table, a call of \<open>set_defaults\<close> without positional
  directive, without \<open>all\<close> and with \<open>extend=false\<close> raises nothing and leaves the engine as
  \<open>create\<close> made it, holding the parent's entries; the table frozen from it, when the
  freeze succeeds, has an entry for exactly the kinds of the parent table, and is empty
  only if the parent table is.
\<close>

theorem freeze_without_directives_keeps_parent:
  "set_defaults (create path parent rtt um) [] None False kwargs
     = (None, create path parent rtt um) \<and>
   (\<forall>t. fst (get_frozen_defaults
              (snd (set_defaults (create path parent rtt um) [] None False kwargs))) = Inr t
        \<longrightarrow> fst ` set t = fst ` set parent \<and> (t = [] \<longleftrightarrow> parent = []))"
proof -
  have "fst ` set t = fst ` set parent \<and> (t = [] \<longleftrightarrow> parent = [])"
    if "fst (get_frozen_defaults (create path parent rtt um)) = Inr t" for t
  proof -
    from get_frozen_defaults_keys [OF that] have k: "fst ` set t = fst ` set parent"
      by (simp add: create_def)
    then have "set t = {} \<longleftrightarrow> set parent = {}"
      by (metis image_is_empty)
    with k show ?thesis by simp
  qed
  then show ?thesis
    by (simp add: set_defaults_nothing)
qed

theorem freeze_without_directives_keeps_parent_witness:
  "fst (get_frozen_defaults (snd (set_defaults
      (create ''src'' [(''test_type_1'', [(''tags'', PyList [PyStr ''root-tag''])])] test_types ())
      [] None False [])))
     = Inr [(''test_type_1'', [(''tags'', PyTuple [PyStr ''root-tag''])])] \<and>
   fst ` set [(''test_type_1'', [(''tags'', PyTuple [PyStr ''root-tag''])])]
     = fst ` set [(''test_type_1'', [(''tags'', PyList [PyStr ''root-tag''])])]"
proof -
  have h: "fst (get_frozen_defaults (snd (set_defaults
      (create ''src'' [(''test_type_1'', [(''tags'', PyList [PyStr ''root-tag''])])] test_types ())
      [] None False [])))
     = Inr [(''test_type_1'', [(''tags'', PyTuple [PyStr ''root-tag''])])]"
    by (simp add: set_defaults_def create_def get_frozen_defaults_def test_types_def
          GenericTarget_def Tags_def Description_def Dependencies_def)
  from freeze_without_directives_keeps_parent
    [of "''src''" "[(''test_type_1'', [(''tags'', PyList [PyStr ''root-tag''])])]" test_types "()" "[]"]
    h
  show ?thesis by blast
qed

text \<open>
  Claim C2: after a call with \<open>extend=false\<close> that raises nothing, a kind named in the call
  (by the \<open>all\<close> mapping or by an explicit directive) has exactly the field mapping the
  call gives it, the mappings given to it merged from the empty mapping, so that no field
  of its prior defaults survives; a kind that the call does not name keeps its entry of
  the working defaults as it was. For a call of one directive naming one kind, the mapping
  is the one written in the directive.
\<close>

theorem set_defaults_replaces_named_kinds:
  assumes "fst (set_defaults self args all False kwargs) = None"
  shows "get (snd (set_defaults self args all False kwargs)) k =
           (if k \<in> named_kinds (call_given (registered_target_types self) (union_membership self) all args)
            then merged_fields (call_given (registered_target_types self) (union_membership self) all args) k []
            else get self k) \<and>
         (k \<notin> named_kinds (call_given (registered_target_types self) (union_membership self) all args) \<longrightarrow>
            map_of (defaults (snd (set_defaults self args all False kwargs))) k = map_of (defaults self) k) \<and>
         (\<forall>kind tt m.
            all = None \<and> args = [ArgDict [(Str kind, Dict m)]] \<and>
            map_of (aliases_to_types (registered_target_types self)) kind = Some tt \<and>
            distinct (map fst m) \<longrightarrow>
            get (snd (set_defaults self args all False kwargs)) (target_type_alias tt) = m)"
proof (intro conjI allI impI)
  show g: "get (snd (set_defaults self args all False kwargs)) k =
           (if k \<in> named_kinds (call_given (registered_target_types self) (union_membership self) all args)
            then merged_fields (call_given (registered_target_types self) (union_membership self) all args) k []
            else get self k)" for k
    using get_after_set_defaults [OF assms, of k] by (simp add: Let_def)
  show "map_of (defaults (snd (set_defaults self args all False kwargs))) k = map_of (defaults self) k"
    if "k \<notin> named_kinds (call_given (registered_target_types self) (union_membership self) all args)"
    using map_of_unnamed_after_set_defaults [OF assms that] .
  show "get (snd (set_defaults self args all False kwargs)) (target_type_alias tt) = m"
    if "all = None \<and> args = [ArgDict [(Str kind, Dict m)]] \<and>
        map_of (aliases_to_types (registered_target_types self)) kind = Some tt \<and>
        distinct (map fst m)" for kind tt m
  proof -
    from that have "call_given (registered_target_types self) (union_membership self) all args
                      = [(target_type_alias tt, m)]"
      by (simp add: call_given_def explicit_given_def)
    with that g [of "target_type_alias tt"] show ?thesis
      by (simp add: named_kinds_def merged_fields_single)
  qed
qed

theorem set_defaults_replaces_named_kinds_witness:
  "fst (set_defaults
      (create ''src''
         [(''target'', [(''tags'', PyTuple [PyStr ''root-tag''])]),
          (''test_type_1'', [(''tags'', PyTuple [PyStr ''root-tag''])]),
          (''test_type_2'', [(''tags'', PyTuple [PyStr ''root-tag'']),
                             (''description'', PyStr ''extend default with desc'')])]
         test_types ())
      [ArgDict [(Str ''test_type_2'', Dict [(''description'', PyStr ''only desc default'')])]]
      None False []) = None \<and>
   get (snd (set_defaults
      (create ''src''
         [(''target'', [(''tags'', PyTuple [PyStr ''root-tag''])]),
          (''test_type_1'', [(''tags'', PyTuple [PyStr ''root-tag''])]),
          (''test_type_2'', [(''tags'', PyTuple [PyStr ''root-tag'']),
                             (''description'', PyStr ''extend default with desc'')])]
         test_types ())
      [ArgDict [(Str ''test_type_2'', Dict [(''description'', PyStr ''only desc default'')])]]
      None False [])) ''test_type_2'' = [(''description'', PyStr ''only desc default'')] \<and>
   map_of (defaults (snd (set_defaults
      (create ''src''
         [(''target'', [(''tags'', PyTuple [PyStr ''root-tag''])]),
          (''test_type_1'', [(''tags'', PyTuple [PyStr ''root-tag''])]),
          (''test_type_2'', [(''tags'', PyTuple [PyStr ''root-tag'']),
                             (''description'', PyStr ''extend default with desc'')])]
         test_types ())
      [ArgDict [(Str ''test_type_2'', Dict [(''description'', PyStr ''only desc default'')])]]
      None False []))) ''test_type_1'' = Some [(''tags'', PyTuple [PyStr ''root-tag''])]"
proof -
  let ?self = "create ''src''
         [(''target'', [(''tags'', PyTuple [PyStr ''root-tag''])]),
          (''test_type_1'', [(''tags'', PyTuple [PyStr ''root-tag''])]),
          (''test_type_2'', [(''tags'', PyTuple [PyStr ''root-tag'']),
                             (''description'', PyStr ''extend default with desc'')])]
         test_types ()"
  let ?args = "[ArgDict [(Str ''test_type_2'', Dict [(''description'', PyStr ''only desc default'')])]]"
  have h: "fst (set_defaults ?self ?args None False []) = None"
    by code_simp
  have t: "map_of (aliases_to_types (registered_target_types ?self)) ''test_type_2''
             = Some (GenericTarget ''test_type_2'')"
    by (simp add: create_def test_types_def)
  have a: "target_type_alias (GenericTarget ''test_type_2'') = ''test_type_2''"
    by (simp add: GenericTarget_def)
  have n: "''test_type_1'' \<notin> named_kinds
             (call_given (registered_target_types ?self) (union_membership ?self) None ?args)"
    by code_simp
  have p: "map_of (defaults ?self) ''test_type_1'' = Some [(''tags'', PyTuple [PyStr ''root-tag''])]"
    by (simp add: create_def)
  from set_defaults_replaces_named_kinds [OF h, of "''test_type_2''", THEN conjunct2, THEN conjunct2,
      rule_format, of "''test_type_2''" "[(''description'', PyStr ''only desc default'')]" "GenericTarget ''test_type_2''"]
    t a
  have 1: "get (snd (set_defaults ?self ?args None False [])) ''test_type_2''
             = [(''description'', PyStr ''only desc default'')]"
    by simp
  from set_defaults_replaces_named_kinds [OF h, of "''test_type_1''", THEN conjunct2, THEN conjunct1,
      THEN mp, OF n] p
  have 2: "map_of (defaults (snd (set_defaults ?self ?args None False []))) ''test_type_1''
             = Some [(''tags'', PyTuple [PyStr ''root-tag''])]"
    by simp
  from h 1 2 show ?thesis
    by (intro conjI)
qed

text \<open>
  Claim C3: if a call of \<open>set_defaults\<close> raises an error, whichever it is, the engine is
  left exactly as it was before the call, and so are its working defaults. This holds of
  the operation on values, and of the operation on objects: \<open>self\<close> holds the same
  references, the field mappings allocated before the call have the contents they had
  (the call wrote to its own copies only), and so the working defaults are the same.
\<close>

theorem set_defaults_atomic:
  "(fst (set_defaults self args all extend' kwargs) = Some e
      \<longrightarrow> snd (set_defaults self args all extend' kwargs) = self) \<and>
   (allocated (h, obj) \<and> set_defaults_obj (h, obj) args all extend' kwargs = (Some e, h', obj')
      \<longrightarrow> obj' = obj \<and> values_of (h', obj') = values_of (h, obj) \<and> (\<forall>r < length h. h' ! r = h ! r))"
proof (rule conjI; rule impI)
  assume "fst (set_defaults self args all extend' kwargs) = Some e"
  then show "snd (set_defaults self args all extend' kwargs) = self"
    by (rule set_defaults_error_state)
next
  assume a: "allocated (h, obj) \<and> set_defaults_obj (h, obj) args all extend' kwargs = (Some e, h', obj')"
  then have alloc: "allocated (h, obj)"
    and res: "set_defaults_obj (h, obj) args all extend' kwargs = (Some e, h', obj')"
    by simp_all
  from set_defaults_obj_sim [OF alloc res]
  have sim: "set_defaults (values_of (h, obj)) args all extend' kwargs = (Some e, values_of (h', obj'))"
    and fr: "\<forall>r < length h. h' ! r = h ! r"
    by simp_all
  from sim have "fst (set_defaults (values_of (h, obj)) args all extend' kwargs) = Some e"
    by simp
  from set_defaults_error_state [OF this] sim have "values_of (h', obj') = values_of (h, obj)"
    by simp
  moreover from res have "obj' = obj"
    by (auto simp: set_defaults_obj_def Let_def split: prod.splits option.splits)
  ultimately show "obj' = obj \<and> values_of (h', obj') = values_of (h, obj) \<and> (\<forall>r < length h. h' ! r = h ! r)"
    using fr by simp
qed

theorem set_defaults_atomic_witness:
  "fst (set_defaults
      (create ''src'' [(''target'', [(''tags'', PyTuple [PyStr ''root-tag''])])] test_types ())
      [ArgDict [(Str ''target'', Dict [(''tags'', PyList [PyStr ''a''])]),
                (Str ''unknown_target'', Dict [])]]
      (Some (Dict [(''description'', PyStr ''d'')])) True [])
     = Some (ValueError (Unrecognized_target_type ''unknown_target''
               \<lparr>spec_path = ''src'', generated_name = Some ''__defaults__''\<rparr>)) \<and>
   defaults (snd (set_defaults
      (create ''src'' [(''target'', [(''tags'', PyTuple [PyStr ''root-tag''])])] test_types ())
      [ArgDict [(Str ''target'', Dict [(''tags'', PyList [PyStr ''a''])]),
                (Str ''unknown_target'', Dict [])]]
      (Some (Dict [(''description'', PyStr ''d'')])) True []))
     = [(''target'', [(''tags'', PyTuple [PyStr ''root-tag''])])] \<and>
   allocated
      (create_obj ''src'' [(''target'', [(''tags'', PyTuple [PyStr ''root-tag''])])] test_types () []) \<and>
   fst (set_defaults_obj
      (create_obj ''src'' [(''target'', [(''tags'', PyTuple [PyStr ''root-tag''])])] test_types () [])
      [ArgDict [(Str ''target'', Dict [(''tags'', PyList [PyStr ''a''])]),
                (Str ''unknown_target'', Dict [])]]
      (Some (Dict [(''description'', PyStr ''d'')])) True [])
     = Some (ValueError (Unrecognized_target_type ''unknown_target''
               \<lparr>spec_path = ''src'', generated_name = Some ''__defaults__''\<rparr>)) \<and>
   fst (snd (set_defaults_obj
      (create_obj ''src'' [(''target'', [(''tags'', PyTuple [PyStr ''root-tag''])])] test_types () [])
      [ArgDict [(Str ''target'', Dict [(''tags'', PyList [PyStr ''a''])]),
                (Str ''unknown_target'', Dict [])]]
      (Some (Dict [(''description'', PyStr ''d'')])) True []))
     = [[(''tags'', PyTuple [PyStr ''root-tag''])],
        [(''tags'', PyList [PyStr ''a'']), (''description'', PyStr ''d'')],
        [(''description'', PyStr ''d'')],
        [(''description'', PyStr ''d'')]] \<and>
   defaults (values_of (snd (set_defaults_obj
      (create_obj ''src'' [(''target'', [(''tags'', PyTuple [PyStr ''root-tag''])])] test_types () [])
      [ArgDict [(Str ''target'', Dict [(''tags'', PyList [PyStr ''a''])]),
                (Str ''unknown_target'', Dict [])]]
      (Some (Dict [(''description'', PyStr ''d'')])) True [])))
     = [(''target'', [(''tags'', PyTuple [PyStr ''root-tag''])])]"
proof -
  let ?parent = "[(''target'', [(''tags'', PyTuple [PyStr ''root-tag''])])]"
  let ?self = "create ''src'' ?parent test_types ()"
  let ?args = "[ArgDict [(Str ''target'', Dict [(''tags'', PyList [PyStr ''a''])]),
                (Str ''unknown_target'', Dict [])]]"
  let ?all = "Some (Dict [(''description'', PyStr ''d'')])"
  let ?e = "ValueError (Unrecognized_target_type ''unknown_target''
               \<lparr>spec_path = ''src'', generated_name = Some ''__defaults__''\<rparr>)"
  let ?s = "create_obj ''src'' ?parent test_types () []"
  let ?res = "set_defaults_obj ?s ?args ?all True []"
  have v: "fst (set_defaults ?self ?args ?all True []) = Some ?e"
    by code_simp
  have alloc: "allocated ?s"
    by (simp add: create_obj_sim)
  have o: "fst ?res = Some ?e"
    by code_simp
  have store: "fst (snd ?res)
     = [[(''tags'', PyTuple [PyStr ''root-tag''])],
        [(''tags'', PyList [PyStr ''a'']), (''description'', PyStr ''d'')],
        [(''description'', PyStr ''d'')],
        [(''description'', PyStr ''d'')]]"
    by code_simp
  have s: "?s = (fst ?s, snd ?s)"
    by simp
  have alloc': "allocated (fst ?s, snd ?s)"
    using alloc by simp
  have res: "set_defaults_obj (fst ?s, snd ?s) ?args ?all True [] = (Some ?e, fst (snd ?res), snd (snd ?res))"
    using o by (simp add: prod_eq_iff)
  note inst = set_defaults_atomic [of ?self ?args ?all True "[]" ?e "fst ?s" "snd ?s" "fst (snd ?res)" "snd (snd ?res)"]
  from inst [THEN conjunct1, THEN mp, OF v]
  have 1: "defaults (snd (set_defaults ?self ?args ?all True [])) = ?parent"
    by (simp add: create_def)
  from inst [THEN conjunct2, THEN mp, OF conjI [OF alloc' res]]
  have "values_of (fst (snd ?res), snd (snd ?res)) = values_of (fst ?s, snd ?s)"
    by (elim conjE)
  then have 2: "defaults (values_of (snd ?res)) = ?parent"
    using create_obj_sim [of "''src''" ?parent test_types "()" "[]"]
    by (simp add: create_def)
  from v 1 alloc o store 2 show ?thesis
    by (intro conjI)
qed

text \<open>
  Claim C4: after a call that gives an \<open>all\<close> mapping and explicit directives and raises
  nothing, a field that the explicit directives give to a kind has the value they give
  (the one the explicit directives alone would leave), whatever \<open>all\<close> says; for a call of
  one directive naming one kind, this is the value written in the directive. Every
  registered kind that has the field and is not given it explicitly has the value of the
  \<open>all\<close> mapping. This holds with and without \<open>extend\<close> (with \<open>extend\<close>, of working defaults
  whose keys are distinct, as those of a dictionary are).
\<close>

theorem explicit_wins_over_all:
  assumes ok: "fst (set_defaults self args (Some (Dict a)) extend' kwargs) = None"
    and dist: "extend' \<longrightarrow> distinct (map fst (defaults self))"
  shows
    "(f \<in> fst ` set (merged_fields (explicit_given (registered_target_types self) (union_membership self) args) k [])
        \<longrightarrow> map_of (get (snd (set_defaults self args (Some (Dict a)) extend' kwargs)) k) f
            = map_of (merged_fields (explicit_given (registered_target_types self) (union_membership self) args) k []) f) \<and>
     (\<forall>kind tt m y.
        args = [ArgDict [(Str kind, Dict m)]] \<and>
        map_of (aliases_to_types (registered_target_types self)) kind = Some tt \<and>
        distinct (map fst m) \<and> map_of m f = Some y
        \<longrightarrow> map_of (get (snd (set_defaults self args (Some (Dict a)) extend' kwargs)) (target_type_alias tt)) f
            = Some y) \<and>
     (\<forall>kind tt x.
        map_of (aliases_to_types (registered_target_types self)) kind = Some tt \<and>
        f \<in> set (valid_field_aliases tt (union_membership self)) \<and>
        distinct (map fst a) \<and> map_of a f = Some x \<and>
        f \<notin> fst ` set (merged_fields (explicit_given (registered_target_types self) (union_membership self) args)
                         (target_type_alias tt) [])
        \<longrightarrow> map_of (get (snd (set_defaults self args (Some (Dict a)) extend' kwargs)) (target_type_alias tt)) f
            = Some x)"
proof -
  let ?rtt = "registered_target_types self" and ?um = "union_membership self"
  let ?self' = "snd (set_defaults self args (Some (Dict a)) extend' kwargs)"
  let ?exp = "explicit_given ?rtt ?um args"
  have wins: "map_of (get ?self' k) f = map_of (merged_fields ?exp k []) f"
    if f: "f \<in> fst ` set (merged_fields ?exp k [])" for k
  proof -
    from f have "merged_fields ?exp k [] \<noteq> []" by auto
    then have "k \<in> named_kinds ?exp"
      using merged_fields_not_named [of k ?exp "[]"] by auto
    then have "k \<in> named_kinds (call_given ?rtt ?um (Some (Dict a)) args)"
      by (simp add: call_given_def)
    from get_named_after_set_defaults [OF ok dist this] f show ?thesis
      by (auto simp: in_keys_iff map_add_def split: option.splits)
  qed
  have single: "map_of (get ?self' (target_type_alias tt)) f = Some y"
    if "args = [ArgDict [(Str kind, Dict m)]] \<and> map_of (aliases_to_types ?rtt) kind = Some tt \<and>
        distinct (map fst m) \<and> map_of m f = Some y" for kind tt m y
  proof -
    from that have "merged_fields ?exp (target_type_alias tt) [] = m"
      by (simp add: explicit_given_def merged_fields_single)
    moreover from that have "f \<in> fst ` set m"
      by (simp add: in_keys_iff)
    ultimately show ?thesis
      using wins [of "target_type_alias tt"] that by simp
  qed
  have others: "map_of (get ?self' (target_type_alias tt)) f = Some x"
    if "map_of (aliases_to_types ?rtt) kind = Some tt \<and> f \<in> set (valid_field_aliases tt ?um) \<and>
        distinct (map fst a) \<and> map_of a f = Some x \<and>
        f \<notin> fst ` set (merged_fields ?exp (target_type_alias tt) [])" for kind tt x
  proof -
    from that have "map_of (aliases_to_types ?rtt) kind = Some tt" by simp
    then have "target_type_alias tt \<in> named_kinds (all_given ?rtt ?um (Some (Dict a)))"
      by (rule all_given_names)
    then have "target_type_alias tt \<in> named_kinds (call_given ?rtt ?um (Some (Dict a)) args)"
      by (simp only: call_given_def named_kinds_append) simp
    from get_named_after_set_defaults [OF ok dist this] that
      all_given_records [of ?rtt kind tt f ?um a x "if extend' then get self (target_type_alias tt) else []"]
    show ?thesis
      by (simp add: in_keys_iff map_add_def)
  qed
  from wins single others show ?thesis by blast
qed

theorem explicit_wins_over_all_witness:
  "fst (set_defaults
          (create '''' [(''test_type_1'', [(''description'', PyStr ''p'')])] test_types ())
          [ArgDict [(Str ''test_type_1'', Dict [(''tags'', PyList [PyStr ''y''])])]]
          (Some (Dict [(''tags'', PyList [PyStr ''x''])])) True []) = None \<and>
   get (snd (set_defaults
          (create '''' [(''test_type_1'', [(''description'', PyStr ''p'')])] test_types ())
          [ArgDict [(Str ''test_type_1'', Dict [(''tags'', PyList [PyStr ''y''])])]]
          (Some (Dict [(''tags'', PyList [PyStr ''x''])])) True [])) ''test_type_1''
     = [(''description'', PyStr ''p''), (''tags'', PyList [PyStr ''y''])] \<and>
   map_of (get (snd (set_defaults
          (create '''' [(''test_type_1'', [(''description'', PyStr ''p'')])] test_types ())
          [ArgDict [(Str ''test_type_1'', Dict [(''tags'', PyList [PyStr ''y''])])]]
          (Some (Dict [(''tags'', PyList [PyStr ''x''])])) True [])) ''test_type_1'') ''tags''
     = Some (PyList [PyStr ''y'']) \<and>
   map_of (get (snd (set_defaults
          (create '''' [(''test_type_1'', [(''description'', PyStr ''p'')])] test_types ())
          [ArgDict [(Str ''test_type_1'', Dict [(''tags'', PyList [PyStr ''y''])])]]
          (Some (Dict [(''tags'', PyList [PyStr ''x''])])) True [])) ''test_type_2'') ''tags''
     = Some (PyList [PyStr ''x''])"
proof -
  let ?self = "create '''' [(''test_type_1'', [(''description'', PyStr ''p'')])] test_types ()"
  let ?args = "[ArgDict [(Str ''test_type_1'', Dict [(''tags'', PyList [PyStr ''y''])])]]"
  let ?a = "[(''tags'', PyList [PyStr ''x''])]"
  have ok: "fst (set_defaults ?self ?args (Some (Dict ?a)) True []) = None"
    by code_simp
  have whole: "get (snd (set_defaults ?self ?args (Some (Dict ?a)) True [])) ''test_type_1''
                 = [(''description'', PyStr ''p''), (''tags'', PyList [PyStr ''y''])]"
    by code_simp
  have dist: "True \<longrightarrow> distinct (map fst (defaults ?self))"
    by (simp add: create_def)
  have t1: "map_of (aliases_to_types (registered_target_types ?self)) ''test_type_1''
              = Some (GenericTarget ''test_type_1'')"
    and t2: "map_of (aliases_to_types (registered_target_types ?self)) ''test_type_2''
              = Some (GenericTarget ''test_type_2'')"
    by (simp_all add: create_def test_types_def)
  have v: "''tags'' \<in> set (valid_field_aliases (GenericTarget ''test_type_2'') (union_membership ?self))"
    by code_simp
  have n: "''tags'' \<notin> fst ` set (merged_fields
             (explicit_given (registered_target_types ?self) (union_membership ?self) ?args)
             (target_type_alias (GenericTarget ''test_type_2'')) [])"
    by code_simp
  note inst = explicit_wins_over_all [OF ok dist, of "''tags''"]
  from inst [THEN conjunct2, THEN conjunct1, rule_format,
      of "''test_type_1''" "[(''tags'', PyList [PyStr ''y''])]" "GenericTarget ''test_type_1''" "PyList [PyStr ''y'']"] t1
  have e: "map_of (get (snd (set_defaults ?self ?args (Some (Dict ?a)) True []))
             (target_type_alias (GenericTarget ''test_type_1''))) ''tags'' = Some (PyList [PyStr ''y''])"
    by simp
  from inst [THEN conjunct2, THEN conjunct2, rule_format,
      of "''test_type_2''" "GenericTarget ''test_type_2''" "PyList [PyStr ''x'']"] t2 v n
  have o: "map_of (get (snd (set_defaults ?self ?args (Some (Dict ?a)) True []))
             (target_type_alias (GenericTarget ''test_type_2''))) ''tags'' = Some (PyList [PyStr ''x''])"
    by simp
  from ok whole e o show ?thesis
    by (simp add: GenericTarget_def)
qed

text \<open>
  Claim C5: for every parent table, the directive that maps a registered kind to the empty
  field mapping, with \<open>extend=false\<close>, raises nothing and removes the entry of that kind
  (the entry under the alias of its target type) from the working defaults; the table
  frozen afterwards has no entry for it.
\<close>

theorem reset_removes_kind:
  assumes "map_of (aliases_to_types rtt) kind = Some tt"
  shows "fst (set_defaults (create path parent rtt um) [ArgDict [(Str kind, Dict [])]] None False kwargs) = None \<and>
         map_of (defaults (snd (set_defaults (create path parent rtt um)
                   [ArgDict [(Str kind, Dict [])]] None False kwargs))) (target_type_alias tt) = None \<and>
         (\<forall>t. fst (get_frozen_defaults (snd (set_defaults (create path parent rtt um)
                   [ArgDict [(Str kind, Dict [])]] None False kwargs))) = Inr t
              \<longrightarrow> map_of t (target_type_alias tt) = None)"
proof -
  let ?self = "create path parent rtt um"
  let ?self' = "?self\<lparr>defaults := AList.delete (target_type_alias tt) (defaults ?self)\<rparr>"
  from assms have "map_of (aliases_to_types (registered_target_types ?self)) kind = Some tt"
    by (simp add: create_def)
  from set_defaults_reset [OF this]
  have r: "set_defaults ?self [ArgDict [(Str kind, Dict [])]] None False kwargs = (None, ?self')" .
  have gone: "target_type_alias tt \<notin> fst ` set (defaults ?self')"
    by (simp add: delete_notin_dom)
  have "map_of t (target_type_alias tt) = None" if "fst (get_frozen_defaults ?self') = Inr t" for t
    using get_frozen_defaults_keys [OF that] gone by (simp add: map_of_eq_None_iff)
  with gone show ?thesis
    by (simp add: r map_of_eq_None_iff)
qed

theorem reset_removes_kind_witness:
  "map_of (aliases_to_types test_types) ''test_type_1'' = Some (GenericTarget ''test_type_1'') \<and>
   fst (set_defaults
          (create '''' [(''test_type_1'', [(''tags'', PyTuple [PyStr ''foo-bar''])])] test_types ())
          [ArgDict [(Str ''test_type_1'', Dict [])]] None False []) = None \<and>
   map_of (defaults (snd (set_defaults
          (create '''' [(''test_type_1'', [(''tags'', PyTuple [PyStr ''foo-bar''])])] test_types ())
          [ArgDict [(Str ''test_type_1'', Dict [])]] None False []))) ''test_type_1'' = None \<and>
   fst (get_frozen_defaults (snd (set_defaults
          (create '''' [(''test_type_1'', [(''tags'', PyTuple [PyStr ''foo-bar''])])] test_types ())
          [ArgDict [(Str ''test_type_1'', Dict [])]] None False []))) = Inr []"
proof -
  have h: "map_of (aliases_to_types test_types) ''test_type_1'' = Some (GenericTarget ''test_type_1'')"
    by (simp add: test_types_def)
  have a: "target_type_alias (GenericTarget ''test_type_1'') = ''test_type_1''"
    by (simp add: GenericTarget_def)
  have f: "fst (get_frozen_defaults (snd (set_defaults
          (create '''' [(''test_type_1'', [(''tags'', PyTuple [PyStr ''foo-bar''])])] test_types ())
          [ArgDict [(Str ''test_type_1'', Dict [])]] None False []))) = Inr []"
    by code_simp
  from reset_removes_kind
    [OF h, of "''''" "[(''test_type_1'', [(''tags'', PyTuple [PyStr ''foo-bar''])])]" "()" "[]"]
    h f a
  show ?thesis by simp
qed

text \<open>
  Claim C6, as the spec states it: naming a field that a registered kind does not have in
  an explicit directive for that kind always raises the invalid-field error. The code
  raises at the first offence it meets: in the directive
  \<open>{("unknown_target", "test_type_1"): {"does-not-exist": ()}}\<close> the field is invalid for
  \<open>test_type_1\<close>, and the call raises the unrecognized-target error of \<open>unknown_target\<close>.
\<close>

theorem invalid_field_other_error:
  "map_of (aliases_to_types test_types) ''test_type_1'' = Some (GenericTarget ''test_type_1'') \<and>
   ''does-not-exist'' \<notin> set (valid_field_aliases (GenericTarget ''test_type_1'') ()) \<and>
   fst (set_defaults (create '''' [] test_types ())
          [ArgDict [(Tuple [''unknown_target'', ''test_type_1''],
                     Dict [(''does-not-exist'', PyTuple [])])]]
          None False [])
     = Some (ValueError (Unrecognized_target_type ''unknown_target''
               \<lparr>spec_path = '''', generated_name = Some ''__defaults__''\<rparr>))"
proof -
  have "map_of (aliases_to_types test_types) ''test_type_1'' = Some (GenericTarget ''test_type_1'')"
    by (simp add: test_types_def)
  moreover have "''does-not-exist'' \<notin> set (valid_field_aliases (GenericTarget ''test_type_1'') ())"
    by code_simp
  moreover have "fst (set_defaults (create '''' [] test_types ())
          [ArgDict [(Tuple [''unknown_target'', ''test_type_1''],
                     Dict [(''does-not-exist'', PyTuple [])])]]
          None False [])
     = Some (ValueError (Unrecognized_target_type ''unknown_target''
               \<lparr>spec_path = '''', generated_name = Some ''__defaults__''\<rparr>))"
    by code_simp
  ultimately show ?thesis by simp
qed

text \<open>
  Claim C6, amended: let a field alias not be among the valid field aliases of a
  registered kind. A call with an explicit directive that names the kind and gives it the
  field always raises an error and leaves the engine unchanged. The error is the
  invalid-field error with the field, the alias of the kind and the sorted set of its
  valid field aliases when the field is the first offence of the call: the call cut off
  just before the kind raises nothing, and the fields written before it in the mapping
  are valid. A call with the \<open>all\<close> mapping only never raises, and it does not record the
  field for a kind that lacks it (no registered target type of that alias has it): with
  \<open>extend=false\<close> the field is absent for the kind, with \<open>extend=true\<close> it is as it was.
\<close>

theorem invalid_field_raises:
  assumes kind: "map_of (aliases_to_types (registered_target_types self)) kind = Some tt"
    and f: "f \<notin> set (valid_field_aliases tt (union_membership self))"
  shows
    "(ArgDict items \<in> set args \<and> (key, Dict m) \<in> set items \<and> kind \<in> set (key_targets key) \<and>
      f \<in> fst ` set m
        \<longrightarrow> (\<exists>e. set_defaults self args all extend' kwargs = (Some e, self))) \<and>
     (key_targets key = tpre @ kind # tpost \<and> map fst m = fpre @ f # fpost \<and>
      set fpre \<subseteq> set (valid_field_aliases tt (union_membership self)) \<and>
      fst (set_defaults self (pre @ [ArgDict (ipre @ [(Tuple tpre, Dict m)])]) all extend' kwargs) = None
        \<longrightarrow> set_defaults self (pre @ ArgDict (ipre @ (key, Dict m) # ipost) # post) all extend' kwargs
              = (Some (InvalidFieldException (Unrecognized_field f (target_type_alias tt)
                   (sorted_list_of_set (set (valid_field_aliases tt (union_membership self)))))), self)) \<and>
     fst (set_defaults self [] (Some (Dict a)) extend' kwargs) = None \<and>
     ((\<forall>kind' tt'. map_of (aliases_to_types (registered_target_types self)) kind' = Some tt' \<and>
                    target_type_alias tt' = target_type_alias tt
                    \<longrightarrow> f \<notin> set (valid_field_aliases tt' (union_membership self))) \<and>
      (extend' \<longrightarrow> distinct (map fst (defaults self)))
        \<longrightarrow> map_of (get (snd (set_defaults self [] (Some (Dict a)) extend' kwargs)) (target_type_alias tt)) f
              = (if extend' then map_of (get self (target_type_alias tt)) f else None))"
proof (intro conjI impI)
  assume a: "ArgDict items \<in> set args \<and> (key, Dict m) \<in> set items \<and> kind \<in> set (key_targets key) \<and>
      f \<in> fst ` set m"
  then have "\<exists>e. process_targets self False m (key_targets key) ds = Inl e" for ds
    using process_targets_invalid_field [of kind "key_targets key" self tt f m ds] kind f by simp
  then have "\<exists>e. process_items self False items ds = Inl e" for ds
    using process_items_fails [of key m items self False ds] a by simp
  then have "\<exists>e. process_args self args ds = Inl e" for ds
    using process_args_fails [of items args self ds] a by simp
  then show "\<exists>e. set_defaults self args all extend' kwargs = (Some e, self)"
    by (rule set_defaults_raises)
next
  assume a: "key_targets key = tpre @ kind # tpost \<and> map fst m = fpre @ f # fpost \<and>
      set fpre \<subseteq> set (valid_field_aliases tt (union_membership self)) \<and>
      fst (set_defaults self (pre @ [ArgDict (ipre @ [(Tuple tpre, Dict m)])]) all extend' kwargs) = None"
  have "process_targets self False m (kind # tpost) ds
          = Inl (InvalidFieldException (Unrecognized_field f (target_type_alias tt)
                   (sorted_list_of_set (set (valid_field_aliases tt (union_membership self))))))" for ds
    using kind f a
    by (simp add: validate_fields_first_invalid sorted_list_of_set_sort_remdups)
  with a show "set_defaults self (pre @ ArgDict (ipre @ (key, Dict m) # ipost) # post) all extend' kwargs
              = (Some (InvalidFieldException (Unrecognized_field f (target_type_alias tt)
                   (sorted_list_of_set (set (valid_field_aliases tt (union_membership self)))))), self)"
    by (intro set_defaults_first_failure) auto
next
  show "fst (set_defaults self [] (Some (Dict a)) extend' kwargs) = None"
    by (rule set_defaults_all_only)
next
  let ?rtt = "registered_target_types self" and ?um = "union_membership self"
  assume a: "(\<forall>kind' tt'. map_of (aliases_to_types ?rtt) kind' = Some tt' \<and>
                    target_type_alias tt' = target_type_alias tt
                    \<longrightarrow> f \<notin> set (valid_field_aliases tt' ?um)) \<and>
             (extend' \<longrightarrow> distinct (map fst (defaults self)))"
  have named: "target_type_alias tt \<in> named_kinds (call_given ?rtt ?um (Some (Dict a)) [])"
    using all_given_names [OF kind, of ?um a] by (simp add: call_given_def explicit_given_def)
  have ok: "fst (set_defaults self [] (Some (Dict a)) extend' kwargs) = None"
    by (rule set_defaults_all_only)
  from a have dist: "extend' \<longrightarrow> distinct (map fst (defaults self))" by simp
  have "map_of (get (snd (set_defaults self [] (Some (Dict a)) extend' kwargs)) (target_type_alias tt)) f
          = map_of (merged_fields (all_given ?rtt ?um (Some (Dict a))) (target_type_alias tt)
                      (if extend' then get self (target_type_alias tt) else [])) f"
    using get_named_after_set_defaults [OF ok dist named]
    by (simp add: explicit_given_def)
  also have "\<dots> = map_of (if extend' then get self (target_type_alias tt) else []) f"
    using a by (intro all_given_leaves_out) blast
  finally show "map_of (get (snd (set_defaults self [] (Some (Dict a)) extend' kwargs)) (target_type_alias tt)) f
              = (if extend' then map_of (get self (target_type_alias tt)) f else None)"
    by simp
qed

theorem invalid_field_raises_witness:
  "map_of (aliases_to_types (registered_target_types
      (create '''' [] test_types () :: (py_value, unit) build_file_defaults_parser_state)))
      ''test_type_1'' = Some (GenericTarget ''test_type_1'') \<and>
   ''does-not-exist'' \<notin> set (valid_field_aliases (GenericTarget ''test_type_1'') ()) \<and>
   set_defaults (create '''' [] test_types ())
      [ArgDict [(Str ''test_type_1'',
                 Dict [(''tags'', PyList [PyStr ''a'']), (''does-not-exist'', PyTuple [])])]]
      None False []
     = (Some (InvalidFieldException (Unrecognized_field ''does-not-exist'' ''test_type_1''
                [''dependencies'', ''description'', ''tags''])),
        create '''' [] test_types ()) \<and>
   fst (set_defaults (create '''' [] test_types ()) []
          (Some (Dict [(''does-not-exist'', PyStr ''ignored'')])) False []) = None \<and>
   map_of (get (snd (set_defaults (create '''' [] test_types ()) []
          (Some (Dict [(''does-not-exist'', PyStr ''ignored'')])) False [])) ''test_type_1'')
      ''does-not-exist'' = None"
proof -
  let ?self = "create '''' [] test_types () :: (py_value, unit) build_file_defaults_parser_state"
  let ?tt = "GenericTarget ''test_type_1''"
  let ?m = "[(''tags'', PyList [PyStr ''a'']), (''does-not-exist'', PyTuple [])]"
  have kind: "map_of (aliases_to_types (registered_target_types ?self)) ''test_type_1'' = Some ?tt"
    by (simp add: create_def test_types_def)
  have um: "union_membership ?self = ()"
    by simp
  have f: "''does-not-exist'' \<notin> set (valid_field_aliases ?tt (union_membership ?self))"
    by code_simp
  have key: "key_targets (Str ''test_type_1'') = [] @ ''test_type_1'' # []"
    by simp
  have keys: "map fst ?m = [''tags''] @ ''does-not-exist'' # []"
    by simp
  have fpre: "set [''tags''] \<subseteq> set (valid_field_aliases ?tt (union_membership ?self))"
    by code_simp
  have ok: "fst (set_defaults ?self ([] @ [ArgDict ([] @ [(Tuple [], Dict ?m)])]) None False []) = None"
    by code_simp
  have sorted: "sorted_list_of_set (set (valid_field_aliases ?tt ()))
                  = [''dependencies'', ''description'', ''tags'']"
    by code_simp
  have al: "target_type_alias ?tt = ''test_type_1''"
    by (simp add: GenericTarget_def)
  have others: "\<forall>kind' tt'. map_of (aliases_to_types (registered_target_types ?self)) kind' = Some tt' \<and>
                    target_type_alias tt' = target_type_alias ?tt
                    \<longrightarrow> ''does-not-exist'' \<notin> set (valid_field_aliases tt' (union_membership ?self))"
    by (auto simp: create_def test_types_def GenericTarget_def valid_field_aliases_def
          aliases_and_deprecated_def Tags_def Description_def Dependencies_def split: if_splits)
  note inst = invalid_field_raises [OF kind f]
  from inst [THEN conjunct2, THEN conjunct1, rule_format, of "Str ''test_type_1''" "[]" "[]" ?m "[''tags'']" "[]"
      "[]" "[]" None False "[]" "[]" "[]"] key keys fpre ok
  have b: "set_defaults ?self [ArgDict [(Str ''test_type_1'', Dict ?m)]] None False []
             = (Some (InvalidFieldException (Unrecognized_field ''does-not-exist'' ''test_type_1''
                  [''dependencies'', ''description'', ''tags''])), ?self)"
    by (simp add: sorted al)
  from inst [THEN conjunct2, THEN conjunct2, THEN conjunct1,
      of "[(''does-not-exist'', PyStr ''ignored'')]" False "[]"]
  have c: "fst (set_defaults ?self [] (Some (Dict [(''does-not-exist'', PyStr ''ignored'')])) False []) = None" .
  from inst [THEN conjunct2, THEN conjunct2, THEN conjunct2, rule_format,
      of False "[(''does-not-exist'', PyStr ''ignored'')]" "[]"] others
  have d: "map_of (get (snd (set_defaults ?self [] (Some (Dict [(''does-not-exist'', PyStr ''ignored'')])) False []))
             (target_type_alias ?tt)) ''does-not-exist'' = None"
    by simp
  from kind f b c d show ?thesis
    by (simp add: al)
qed

text \<open>
  Claim C7: \<open>get_frozen_defaults\<close> leaves the engine, and so its working defaults, as they
  were, and two calls in a row return the same result.
\<close>

theorem get_frozen_defaults_idempotent:
  "snd (get_frozen_defaults self) = self \<and>
   defaults (snd (get_frozen_defaults self)) = defaults self \<and>
   fst (get_frozen_defaults (snd (get_frozen_defaults self))) = fst (get_frozen_defaults self)"
  by (simp add: get_frozen_defaults_def)

text \<open>
  Claim C8, as the spec states it: an explicit directive with an alias that is not in the
  registry, alone or in a tuple, always raises the unrecognized-kind error naming that
  alias. The code raises at the first offence it meets: in the directive
  \<open>{("test_type_1", "unknown_target"): {"does-not-exist": ()}}\<close> the alias
  \<open>unknown_target\<close> is not registered, and the call raises the invalid-field error of
  \<open>test_type_1\<close>, which comes first in the tuple.
\<close>

theorem unregistered_kind_other_error:
  "map_of (aliases_to_types test_types) ''unknown_target'' = None \<and>
   fst (set_defaults (create '''' [] test_types ())
          [ArgDict [(Tuple [''test_type_1'', ''unknown_target''],
                     Dict [(''does-not-exist'', PyTuple [])])]]
          None False [])
     = Some (InvalidFieldException (Unrecognized_field ''does-not-exist'' ''test_type_1''
               [''dependencies'', ''description'', ''tags'']))"
  by code_simp

text \<open>
  Claim C8, amended: a call with an explicit directive that names an alias absent from
  the registry, alone or in a tuple, always raises an error and leaves the engine
  unchanged. The error is the unrecognized-kind error with that alias and the address of
  the scope when the alias is the first offence of the call: its value in the directive
  is a mapping and the call cut off just before the alias raises nothing.
\<close>

theorem unregistered_kind_raises:
  assumes bad: "map_of (aliases_to_types (registered_target_types self)) bad = None"
  shows
    "(ArgDict items \<in> set args \<and> (key, obj) \<in> set items \<and> bad \<in> set (key_targets key)
        \<longrightarrow> (\<exists>e. set_defaults self args all extend' kwargs = (Some e, self))) \<and>
     (key_targets key = tpre @ bad # tpost \<and>
      fst (set_defaults self (pre @ [ArgDict (ipre @ [(Tuple tpre, Dict m)])]) all extend' kwargs) = None
        \<longrightarrow> set_defaults self (pre @ ArgDict (ipre @ (key, Dict m) # ipost) # post) all extend' kwargs
              = (Some (ValueError (Unrecognized_target_type bad (address self))), self))"
proof (intro conjI impI)
  assume "ArgDict items \<in> set args \<and> (key, obj) \<in> set items \<and> bad \<in> set (key_targets key)"
  then have "\<exists>e. process_args self args ds = Inl e" for ds
    using process_args_unregistered [of items args key obj bad self ds] bad by simp
  then show "\<exists>e. set_defaults self args all extend' kwargs = (Some e, self)"
    by (rule set_defaults_raises)
next
  assume a: "key_targets key = tpre @ bad # tpost \<and>
      fst (set_defaults self (pre @ [ArgDict (ipre @ [(Tuple tpre, Dict m)])]) all extend' kwargs) = None"
  have "process_targets self False m (bad # tpost) ds
          = Inl (ValueError (Unrecognized_target_type bad (address self)))" for ds
    using bad by simp
  with a show "set_defaults self (pre @ ArgDict (ipre @ (key, Dict m) # ipost) # post) all extend' kwargs
              = (Some (ValueError (Unrecognized_target_type bad (address self))), self)"
    by (intro set_defaults_first_failure) auto
qed

theorem unregistered_kind_raises_witness:
  "map_of (aliases_to_types (registered_target_types
      (create ''src'' [] test_types () :: (py_value, unit) build_file_defaults_parser_state)))
      ''unknown_target'' = None \<and>
   fst (set_defaults (create ''src'' [] test_types ())
          ([ArgDict [(Str ''target'', Dict [(''tags'', PyList [PyStr ''a''])])]]
           @ [ArgDict ([(Str ''test_type_1'', Dict [])]
                       @ [(Tuple [''test_type_2''], Dict [(''description'', PyStr ''d'')])])])
          None False []) = None \<and>
   set_defaults (create ''src'' [] test_types ())
          ([ArgDict [(Str ''target'', Dict [(''tags'', PyList [PyStr ''a''])])]]
           @ ArgDict ([(Str ''test_type_1'', Dict [])]
                      @ (Tuple [''test_type_2'', ''unknown_target'', ''target''],
                         Dict [(''description'', PyStr ''d'')]) # []) # [])
          None False []
     = (Some (ValueError (Unrecognized_target_type ''unknown_target''
                \<lparr>spec_path = ''src'', generated_name = Some ''__defaults__''\<rparr>)),
        create ''src'' [] test_types ())"
proof -
  let ?self = "create ''src'' [] test_types () :: (py_value, unit) build_file_defaults_parser_state"
  have bad: "map_of (aliases_to_types (registered_target_types ?self)) ''unknown_target'' = None"
    by (simp add: create_def test_types_def)
  have key: "key_targets (Tuple [''test_type_2'', ''unknown_target'', ''target''])
               = [''test_type_2''] @ ''unknown_target'' # [''target'']"
    by simp
  have ok: "fst (set_defaults ?self
          ([ArgDict [(Str ''target'', Dict [(''tags'', PyList [PyStr ''a''])])]]
           @ [ArgDict ([(Str ''test_type_1'', Dict [])]
                       @ [(Tuple [''test_type_2''], Dict [(''description'', PyStr ''d'')])])])
          None False []) = None"
    by code_simp
  have addr: "address ?self = \<lparr>spec_path = ''src'', generated_name = Some ''__defaults__''\<rparr>"
    by (simp add: create_def)
  from unregistered_kind_raises [OF bad, THEN conjunct2, rule_format, OF conjI, OF key ok,
      of "[]" "[]"] bad ok addr
  show ?thesis by simp
qed

text \<open>
  Claim C9: \<open>set_defaults\<close> never reads its keyword arguments \<open>kwargs\<close>: the outcome of a
  call is the same with and without them, and a call with unknown keywords only (no
  positional directive, no \<open>all\<close>, no \<open>extend\<close>) raises nothing and leaves the engine, and so
  its working defaults, unchanged.
\<close>

theorem set_defaults_ignores_kwargs:
  "set_defaults self args all extend' kwargs = set_defaults self args all extend' [] \<and>
   set_defaults self [] None False kwargs = (None, self) \<and>
   defaults (snd (set_defaults self [] None False kwargs)) = defaults self"
  by (simp add: set_defaults_def)

text \<open>
  Claim C10: let a kind be registered and have an entry in the working defaults. When the
  freeze succeeds, a field stored under the deprecated alias of one of the kind's field
  types is in the frozen entry of the kind under the alias of that field type, and the
  value there is the one the field type computes from the stored value when no other
  field type has that alias and no other stored field is that field. A stored field alias
  that is neither the alias nor the deprecated alias of any field type of the kind does
  not count: freezing gives the same result, table or error, as without it, and the
  frozen entry of the kind has no field of that name.
\<close>

theorem freeze_deprecated_and_unknown_aliases:
  assumes reg: "map_of (aliases_to_types (registered_target_types self)) kind = Some tt"
    and entry: "map_of (defaults self) kind = Some fs"
  shows
    "(distinct (map fst (defaults self)) \<and> fst (get_frozen_defaults self) = Inr t \<and>
      ft \<in> set (class_field_types tt (union_membership self)) \<and>
      deprecated_alias ft = Some old \<and> (old, raw) \<in> set fs
        \<longrightarrow> (\<exists>m. map_of t kind = Some m \<and> field_type_alias ft \<in> fst ` set m \<and>
                ((\<forall>ft' \<in> set (class_field_types tt (union_membership self)).
                     field_type_alias ft' = field_type_alias ft \<longrightarrow> ft' = ft) \<and>
                 (\<forall>p \<in> set fs. matches (fst p) ft \<longrightarrow> p = (old, raw))
                   \<longrightarrow> (\<exists>v. compute_value ft raw (address self) = Inr v \<and>
                            map_of m (field_type_alias ft) = Some v)))) \<and>
     ((\<forall>ft \<in> set (class_field_types tt (union_membership self)). \<not> matches unknown ft)
        \<longrightarrow> fst (get_frozen_defaults
                   (self\<lparr>defaults := AList.update kind (AList.delete unknown fs) (defaults self)\<rparr>))
              = fst (get_frozen_defaults self) \<and>
            (\<forall>t m. fst (get_frozen_defaults self) = Inr t \<and> map_of t kind = Some m
                   \<longrightarrow> unknown \<notin> fst ` set m))"
proof (intro conjI impI)
  let ?fts = "class_field_types tt (union_membership self)"
  assume a: "distinct (map fst (defaults self)) \<and> fst (get_frozen_defaults self) = Inr t \<and>
      ft \<in> set ?fts \<and> deprecated_alias ft = Some old \<and> (old, raw) \<in> set fs"
  then have t: "freeze_targets self (defaults self) [] = Inr t"
    by (simp add: get_frozen_defaults_def)
  from entry have "(kind, fs) \<in> set (defaults self)"
    by (rule map_of_SomeD)
  with freeze_targets_entry [OF t] a obtain m where
    m: "freeze_fields self kind fs [] = Inr m" and tk: "map_of t kind = Some m"
    by blast
  from a have match: "matches old ft"
    by (simp add: matches_def)
  with a have key: "field_type_alias ft \<in> fst ` set m"
    unfolding freeze_fields_keys [OF reg m] by auto
  have "\<exists>v. compute_value ft raw (address self) = Inr v \<and> map_of m (field_type_alias ft) = Some v"
    if u: "(\<forall>ft' \<in> set ?fts. field_type_alias ft' = field_type_alias ft \<longrightarrow> ft' = ft) \<and>
           (\<forall>p \<in> set fs. matches (fst p) ft \<longrightarrow> p = (old, raw))"
  proof -
    from key obtain v where v: "map_of m (field_type_alias ft) = Some v"
      by (auto simp: in_keys_iff)
    from freeze_fields_values [OF reg m v] obtain ft' fa' raw' where
      src: "(fa', raw') \<in> set fs" "ft' \<in> set ?fts" "matches fa' ft'"
           "field_type_alias ft' = field_type_alias ft"
           "compute_value ft' raw' (address self) = Inr v"
      by auto
    with u have "ft' = ft" by blast
    with src u have "(fa', raw') = (old, raw)" by fastforce
    with src \<open>ft' = ft\<close> v show ?thesis by simp
  qed
  with tk key
  show "\<exists>m. map_of t kind = Some m \<and> field_type_alias ft \<in> fst ` set m \<and>
                ((\<forall>ft' \<in> set ?fts. field_type_alias ft' = field_type_alias ft \<longrightarrow> ft' = ft) \<and>
                 (\<forall>p \<in> set fs. matches (fst p) ft \<longrightarrow> p = (old, raw))
                   \<longrightarrow> (\<exists>v. compute_value ft raw (address self) = Inr v \<and>
                            map_of m (field_type_alias ft) = Some v))"
    by blast
next
  let ?fts = "class_field_types tt (union_membership self)"
  let ?self' = "self\<lparr>defaults := AList.update kind (AList.delete unknown fs) (defaults self)\<rparr>"
  assume none: "\<forall>ft \<in> set ?fts. \<not> matches unknown ft"
  have same: "freeze_fields self kind (AList.delete unknown fs) [] = freeze_fields self kind fs []"
    using none by (intro freeze_fields_delete [OF reg]) simp
  have params: "freeze_targets ?self' ds acc = freeze_targets self ds acc" for ds acc
  proof (induction ds arbitrary: acc)
    case Nil
    then show ?case by simp
  next
    case (Cons p ds)
    obtain a fs' where p: "p = (a, fs')" by (cases p)
    have "freeze_fields ?self' a fs' acc' = freeze_fields self a fs' acc'" for acc'
      by (induction fs' arbitrary: acc') (auto split: option.splits sum.splits)
    with Cons.IH show ?case
      by (simp add: p split: sum.splits)
  qed
  show "fst (get_frozen_defaults ?self') = fst (get_frozen_defaults self)"
    using freeze_targets_update [OF entry same, of "[]"]
    by (simp add: get_frozen_defaults_def params)
next
  let ?fts = "class_field_types tt (union_membership self)"
  assume none: "\<forall>ft \<in> set ?fts. \<not> matches unknown ft"
  show "\<forall>t m. fst (get_frozen_defaults self) = Inr t \<and> map_of t kind = Some m
                   \<longrightarrow> unknown \<notin> fst ` set m"
  proof (intro allI impI)
    fix t m
    assume a: "fst (get_frozen_defaults self) = Inr t \<and> map_of t kind = Some m"
    then have "freeze_targets self (defaults self) [] = Inr t" "map_of t kind = Some m"
      by (simp_all add: get_frozen_defaults_def)
    from freeze_targets_source [OF this] obtain fs' where
      m: "freeze_fields self kind fs' [] = Inr m"
      by auto
    show "unknown \<notin> fst ` set m"
    proof
      assume "unknown \<in> fst ` set m"
      then obtain ft where "ft \<in> set ?fts" "field_type_alias ft = unknown"
        unfolding freeze_fields_keys [OF reg m] by auto
      with none show False by (auto simp: matches_def)
    qed
  qed
qed

theorem freeze_deprecated_and_unknown_aliases_witness:
  "fst (get_frozen_defaults
     (create '''' [(''renamed'', [(''old_name'', PyStr ''v''), (''bogus'', PyStr ''w'')])]
        renamed_types ()))
     = Inr [(''renamed'', [(''new_name'', PyStr ''v'')])] \<and>
   fst (get_frozen_defaults
     ((create '''' [(''renamed'', [(''old_name'', PyStr ''v''), (''bogus'', PyStr ''w'')])]
        renamed_types ())
      \<lparr>defaults := AList.update ''renamed''
          (AList.delete ''bogus'' [(''old_name'', PyStr ''v''), (''bogus'', PyStr ''w'')])
          [(''renamed'', [(''old_name'', PyStr ''v''), (''bogus'', PyStr ''w'')])]\<rparr>))
     = Inr [(''renamed'', [(''new_name'', PyStr ''v'')])] \<and>
   (\<exists>m. map_of [(''renamed'', [(''new_name'', PyStr ''v'')])] ''renamed'' = Some m \<and>
        ''new_name'' \<in> fst ` set m \<and> ''bogus'' \<notin> fst ` set m \<and>
        map_of m ''new_name'' = Some (PyStr ''v''))"
proof -
  let ?fs = "[(''old_name'', PyStr ''v''), (''bogus'', PyStr ''w'')]"
  let ?self = "create '''' [(''renamed'', ?fs)] renamed_types ()"
  let ?t = "[(''renamed'', [(''new_name'', PyStr ''v'')])]"
  have reg: "map_of (aliases_to_types (registered_target_types ?self)) ''renamed'' = Some RenamedTarget"
    by (simp add: create_def renamed_types_def)
  have entry: "map_of (defaults ?self) ''renamed'' = Some ?fs"
    by (simp add: create_def)
  have d: "defaults ?self = [(''renamed'', ?fs)]"
    by (simp add: create_def)
  have dist: "distinct (map fst (defaults ?self))"
    by (simp add: create_def)
  have frozen: "fst (get_frozen_defaults ?self) = Inr ?t"
    by code_simp
  have ft: "Renamed \<in> set (class_field_types RenamedTarget (union_membership ?self))"
    by (simp add: RenamedTarget_def)
  have old: "deprecated_alias Renamed = Some ''old_name''"
    by (simp add: Renamed_def)
  have raw: "(''old_name'', PyStr ''v'') \<in> set ?fs"
    by simp
  have only_type: "\<forall>ft' \<in> set (class_field_types RenamedTarget (union_membership ?self)).
      field_type_alias ft' = field_type_alias Renamed \<longrightarrow> ft' = Renamed"
    by (simp add: RenamedTarget_def Renamed_def Tags_def)
  have only_item: "\<forall>p \<in> set ?fs. matches (fst p) Renamed \<longrightarrow> p = (''old_name'', PyStr ''v'')"
    by (simp add: matches_def Renamed_def)
  have unknown: "\<forall>ft \<in> set (class_field_types RenamedTarget (union_membership ?self)).
      \<not> matches ''bogus'' ft"
    by (simp add: matches_def RenamedTarget_def Renamed_def Tags_def)
  have al: "field_type_alias Renamed = ''new_name''"
    by (simp add: Renamed_def)
  have v: "compute_value Renamed (PyStr ''v'') (address ?self) = Inr (PyStr ''v'')"
    by (simp add: Renamed_def)
  note inst = freeze_deprecated_and_unknown_aliases [OF reg entry]
  have ante: "distinct (map fst (defaults ?self)) \<and> fst (get_frozen_defaults ?self) = Inr ?t \<and>
      Renamed \<in> set (class_field_types RenamedTarget (union_membership ?self)) \<and>
      deprecated_alias Renamed = Some ''old_name'' \<and> (''old_name'', PyStr ''v'') \<in> set ?fs"
    using dist frozen ft old raw by (intro conjI)
  have only: "(\<forall>ft' \<in> set (class_field_types RenamedTarget (union_membership ?self)).
      field_type_alias ft' = field_type_alias Renamed \<longrightarrow> ft' = Renamed) \<and>
      (\<forall>p \<in> set ?fs. matches (fst p) Renamed \<longrightarrow> p = (''old_name'', PyStr ''v''))"
    using only_type only_item by (intro conjI)
  from inst [THEN conjunct1, THEN mp, OF ante]
  obtain m where m1: "map_of ?t ''renamed'' = Some m"
    and m2: "field_type_alias Renamed \<in> fst ` set m"
    and m3: "(\<forall>ft' \<in> set (class_field_types RenamedTarget (union_membership ?self)).
                field_type_alias ft' = field_type_alias Renamed \<longrightarrow> ft' = Renamed) \<and>
             (\<forall>p \<in> set ?fs. matches (fst p) Renamed \<longrightarrow> p = (''old_name'', PyStr ''v''))
             \<longrightarrow> (\<exists>v. compute_value Renamed (PyStr ''v'') (address ?self) = Inr v \<and>
                      map_of m (field_type_alias Renamed) = Some v)"
    by (elim exE conjE)
  from m3 [THEN mp, OF only] v
  have m4: "map_of m (field_type_alias Renamed) = Some (PyStr ''v'')"
    by (elim exE conjE) simp
  note part2 = inst [THEN conjunct2, THEN mp, OF unknown]
  have same: "fst (get_frozen_defaults
                 (?self\<lparr>defaults := AList.update ''renamed'' (AList.delete ''bogus'' ?fs) (defaults ?self)\<rparr>))
              = fst (get_frozen_defaults ?self)"
    by (rule part2 [THEN conjunct1])
  have absent: "\<forall>t m. fst (get_frozen_defaults ?self) = Inr t \<and> map_of t ''renamed'' = Some m
                   \<longrightarrow> ''bogus'' \<notin> fst ` set m"
    by (rule part2 [THEN conjunct2])
  have m5: "''bogus'' \<notin> fst ` set m"
    by (rule absent [THEN spec, THEN spec, THEN mp, OF conjI [OF frozen m1]])
  from m1 m2 [unfolded al] m4 [unfolded al] m5 have "map_of ?t ''renamed'' = Some m \<and> ''new_name'' \<in> fst ` set m \<and>
      ''bogus'' \<notin> fst ` set m \<and> map_of m ''new_name'' = Some (PyStr ''v'')"
    by (intro conjI)
  then have ex: "\<exists>m. map_of ?t ''renamed'' = Some m \<and> ''new_name'' \<in> fst ` set m \<and>
      ''bogus'' \<notin> fst ` set m \<and> map_of m ''new_name'' = Some (PyStr ''v'')"
    by (rule exI [of _ m])
  from same have same': "fst (get_frozen_defaults
       (?self\<lparr>defaults := AList.update ''renamed'' (AList.delete ''bogus'' ?fs) [(''renamed'', ?fs)]\<rparr>))
       = Inr ?t"
    by (simp only: d frozen)
  from frozen same' ex show ?thesis
    by (intro conjI)
qed

end
